theory Spec2Isabelle
  imports Main "HOL-Library.AList"
begin

section \<open>The namespace commands of pkg/runtime/namespace/command.go\<close>

text \<open>
  Every command of the source is a closure \<open>func(ns *Namespace) error\<close>. The embedding
  runs a command on a \<open>world\<close>: the Namespace it points to, the datasource objects the
  handles refer to, the allocator of slice backing arrays, and the chronological trace
  of the calls the command makes on its collaborators (mutex, atomic stores, handle
  methods, logger). A command yields an \<open>outcome\<close> and the next world.
\<close>

subsection \<open>Datasource handles\<close>

type_synonym addr = nat

text \<open>proto.Weight is declared outside this file; the commands only pass it on.\<close>

type_synonym Weight = "int \<times> int"

datatype error = BackendError | TeardownError

text \<open>
  Modelled from the spec: the Datasource Handle interface \<open>proto.DB\<close>, whose declaration
  and implementations are missing. A handle has an \<open>ID\<close>, a weight whose mutation fails
  with BackendError when the backend rejects the new weight, and a teardown \<open>Close\<close>
  that fails with TeardownError on a resource-release failure. The object also counts
  the Close calls it has received.
\<close>

record db_obj =
  db_id :: string
  db_weight :: Weight
  db_rejects :: "Weight \<Rightarrow> bool"
  db_close_fails :: bool
  db_closed :: nat

text \<open>
  A value of type \<open>DB\<close> is a non-nil handle: the address of its object. The nil
  interface value is \<open>None\<close> of \<open>DB option\<close>: the source uses it for "not found" in
  \<open>bingo\<close>, \<open>removed\<close> and \<open>expired\<close>, and a caller can pass it to UpsertDB, where
  \<open>ds.ID()\<close> on it panics. The slices of the topology hold values of type \<open>DB\<close>: the
  only handles this file puts into a slice are those of the old slice and the
  argument of UpsertDB, after \<open>ds.ID()\<close> has answered.
\<close>

type_synonym DB = addr

type_synonym heap = "addr \<Rightarrow> db_obj"

subsection \<open>Slices and the topology map\<close>

text \<open>
  A slice \<open>[]proto.DB\<close> is a header over a backing array. The model keeps the identity
  of the array (\<open>None\<close> for the nil slice), the elements up to the length, and the
  capacity. The commands never write into an array that a published snapshot can
  reach (they append only to slices they made themselves), so keeping the elements
  with the header is exact for them. Two slices are the same sequence object when
  they are equal as records: same array, same length, same capacity.
\<close>

record slice =
  arr :: "nat option"
  elems :: "DB list"
  cap :: nat

text \<open>
  The map \<open>map[string][]proto.DB\<close> is an association list with distinct keys;
  \<open>range\<close> visits the entries in list order. Go leaves the order open: the theorems
  hold for every list and so for every order.
\<close>

type_synonym topology = "(string \<times> slice) list"

definition keys_ok :: "topology \<Rightarrow> bool" where
  "keys_ok t = distinct (map fst t)"

definition nil_slice :: slice where
  "nil_slice = \<lparr>arr = None, elems = [], cap = 0\<rparr>"

text \<open>
  \<open>make([]proto.DB, 0, n)\<close>: a new array of capacity \<open>n\<close>, length 0. (For \<open>n = 0\<close>
  the runtime hands out one shared zero-size array; no theorem below rests on the
  array of a made slice being new.)
\<close>

definition make_slice :: "nat \<Rightarrow> nat \<Rightarrow> slice \<times> nat" where
  "make_slice n fr = (\<lparr>arr = Some fr, elems = [], cap = n\<rparr>, Suc fr)"

text \<open>
  \<open>append(s, x)\<close>: in place while the length is below the capacity, otherwise into a
  new array. How much the runtime grows the capacity is its own business; the model
  doubles it.
\<close>

definition append1 :: "slice \<Rightarrow> DB \<Rightarrow> nat \<Rightarrow> slice \<times> nat" where
  "append1 s x fr =
     (if length (elems s) < cap s then (s\<lparr>elems := elems s @ [x]\<rparr>, fr)
      else (\<lparr>arr = Some fr, elems = elems s @ [x],
             cap = (if cap s = 0 then 1 else 2 * cap s)\<rparr>, Suc fr))"

subsection \<open>The Namespace and the world around it\<close>

type_synonym rule_ptr = nat

datatype logger = SlowLogger string nat

text \<open>
  The fields of \<open>Namespace\<close> that the commands touch. \<open>dss\<close> and \<open>rule\<close> are
  \<open>atomic.Value\<close>s: \<open>None\<close> is a Value nothing has been stored in, for which the
  type assertion \<open>.(map[string][]proto.DB)\<close> does not hold.
\<close>

record Namespace =
  name :: string
  dss :: "topology option"
  rule :: "rule_ptr option"
  parameters :: "string \<rightharpoonup> string"
  slowThreshold :: int
  slowLog :: "logger option"

datatype arg = S string | E error

datatype event =
    Lock
  | Unlock
  | StoreDss topology
  | StoreRule rule_ptr
  | CallSetWeight DB Weight
  | CallClose DB
  | Errorf string "arg list"
  | Infof string "arg list"

record world =
  ns :: Namespace
  heap :: heap
  fresh :: nat
  trace :: "event list"

datatype outcome = Returned "error option" | Panicked

definition emit :: "event \<Rightarrow> world \<Rightarrow> world" where
  "emit e w = w\<lparr>trace := trace w @ [e]\<rparr>"

definition ID :: "heap \<Rightarrow> DB \<Rightarrow> string" where
  "ID h d = db_id (h d)"

definition SetWeight :: "DB \<Rightarrow> Weight \<Rightarrow> world \<Rightarrow> error option \<times> world" where
  "SetWeight d wt w =
     (let w1 = emit (CallSetWeight d wt) w in
      if db_rejects (heap w d) wt then (Some BackendError, w1)
      else (None, w1\<lparr>heap := (heap w)(d := (heap w d)\<lparr>db_weight := wt\<rparr>)\<rparr>))"

definition Close :: "DB \<Rightarrow> world \<Rightarrow> error option \<times> world" where
  "Close d w =
     (let w1 = emit (CallClose d) w in
      (if db_close_fails (heap w d) then Some TeardownError else None,
       w1\<lparr>heap := (heap w)(d := (heap w d)\<lparr>db_closed := Suc (db_closed (heap w d))\<rparr>)\<rparr>))"

text \<open>\<open>ns.dss.Store(newborn)\<close> and \<open>ns.rule.Store(rule)\<close>.\<close>

definition store_dss :: "topology \<Rightarrow> world \<Rightarrow> world" where
  "store_dss t w = (emit (StoreDss t) w)\<lparr>ns := (ns w)\<lparr>dss := Some t\<rparr>\<rparr>"

definition store_rule :: "rule_ptr \<Rightarrow> world \<Rightarrow> world" where
  "store_rule r w = (emit (StoreRule r) w)\<lparr>ns := (ns w)\<lparr>rule := Some r\<rparr>\<rparr>"

text \<open>
  \<open>ns.Lock(); defer ns.Unlock()\<close>: the body runs between the two calls, and the
  deferred Unlock also runs when the body panics.
\<close>

definition locked :: "(world \<Rightarrow> outcome \<times> world) \<Rightarrow> world \<Rightarrow> outcome \<times> world" where
  "locked body w = (case body (emit Lock w) of (r, w') \<Rightarrow> (r, emit Unlock w'))"

subsection \<open>UpdateWeight\<close>

text \<open>The search loop of UpdateWeight: the first handle with the ID, then \<open>break\<close>.\<close>

fun find_bingo :: "heap \<Rightarrow> string \<Rightarrow> DB list \<Rightarrow> DB option" where
  "find_bingo h ident [] = None"
| "find_bingo h ident (it # rest) =
     (if ID h it = ident then Some it else find_bingo h ident rest)"

definition UpdateWeight :: "string \<Rightarrow> string \<Rightarrow> Weight \<Rightarrow> world \<Rightarrow> outcome \<times> world" where
  "UpdateWeight grp ident weight =
     locked (\<lambda>w.
       case dss (ns w) of
         None \<Rightarrow> (Panicked, w)
       | Some d \<Rightarrow>
           (case (case map_of d grp of
                    None \<Rightarrow> None
                  | Some exist \<Rightarrow> find_bingo (heap w) ident (elems exist)) of
              None \<Rightarrow>
                (Returned None,
                 emit (Errorf ''[%s] failed to update weight: no such datasource %s.%s''
                         [S (name (ns w)), S grp, S ident]) w)
            | Some bingo \<Rightarrow>
                (case SetWeight bingo weight w of
                   (Some err, w1) \<Rightarrow>
                     (Returned None,
                      emit (Errorf ''[%s] failed to update weight of datasource %s.%s: %v''
                              [S (name (ns w1)), S grp, S ident, E err]) w1)
                 | (None, w1) \<Rightarrow>
                     (Returned None,
                      emit (Infof ''[%s] update weight of datasource %s.%s successfully''
                              [S (name (ns w1)), S grp, S ident]) w1))))"

subsection \<open>The removal commands and UpsertDB\<close>

text \<open>
  The loop that RemoveNode, RemoveDB and UpsertDB each run over the group's handles:
  a handle with the ID is remembered (the last one wins) and skipped, every other
  handle is appended to the slice being built.
\<close>

fun drop_loop :: "heap \<Rightarrow> string \<Rightarrow> DB list \<Rightarrow> slice \<times> DB option \<times> nat \<Rightarrow> slice \<times> DB option \<times> nat" where
  "drop_loop h ident [] acc = acc"
| "drop_loop h ident (it # rest) (values, expired, fr) =
     (if ID h it = ident then drop_loop h ident rest (values, Some it, fr)
      else (case append1 values it fr of
              (values', fr') \<Rightarrow> drop_loop h ident rest (values', expired, fr')))"

text \<open>
  What RemoveNode and RemoveDB do with the slice \<open>v\<close> of the targeted group: a new
  slice of capacity \<open>len(v)\<close>, then the loop over \<open>v\<close>.
\<close>

definition rebuild :: "heap \<Rightarrow> string \<Rightarrow> slice \<Rightarrow> DB option \<Rightarrow> nat \<Rightarrow> slice \<times> DB option \<times> nat" where
  "rebuild h ident v removed fr =
     (case make_slice (length (elems v)) fr of
        (newVal, fr0) \<Rightarrow> drop_loop h ident (elems v) (newVal, removed, fr0))"

text \<open>The \<open>range dss\<close> loop of RemoveNode, over the entries of the current map.\<close>

fun RemoveNode_range ::
  "heap \<Rightarrow> string \<Rightarrow> string \<Rightarrow> topology \<Rightarrow> topology \<times> DB option \<times> nat \<Rightarrow> topology \<times> DB option \<times> nat" where
  "RemoveNode_range h grp node [] acc = acc"
| "RemoveNode_range h grp node ((k, v) # rest) (newborn, removed, fr) =
     (if k \<noteq> grp then
        RemoveNode_range h grp node rest (AList.update k v newborn, removed, fr)
      else
        (case rebuild h node v removed fr of
           (newVal, removed', fr') \<Rightarrow>
             RemoveNode_range h grp node rest
               (AList.update k newVal newborn, removed', fr')))"

definition RemoveNode :: "string \<Rightarrow> string \<Rightarrow> world \<Rightarrow> outcome \<times> world" where
  "RemoveNode grp node =
     locked (\<lambda>w.
       case dss (ns w) of
         None \<Rightarrow> (Returned None, w)
       | Some d \<Rightarrow>
           (case RemoveNode_range (heap w) grp node d ([], None, fresh w) of
              (newborn, removed, fr) \<Rightarrow>
                (let w1 = store_dss newborn (w\<lparr>fresh := fr\<rparr>);
                     w2 = (case removed of None \<Rightarrow> w1 | Some r \<Rightarrow> snd (Close r w1))
                 in (Returned None,
                     emit (Infof ''[%s] remove node '%s' from group '%s' successfully''
                             [S (name (ns w2)), S node, S grp]) w2))))"

text \<open>The \<open>range dss\<close> loop of RemoveGroup.\<close>

fun RemoveGroup_range :: "string \<Rightarrow> topology \<Rightarrow> topology \<Rightarrow> topology" where
  "RemoveGroup_range grp [] newborn = newborn"
| "RemoveGroup_range grp ((k, v) # rest) newborn =
     (if k = grp then RemoveGroup_range grp rest newborn
      else RemoveGroup_range grp rest (AList.update k v newborn))"

definition RemoveGroup :: "string \<Rightarrow> world \<Rightarrow> outcome \<times> world" where
  "RemoveGroup grp =
     locked (\<lambda>w.
       case dss (ns w) of
         None \<Rightarrow> (Returned None, w)
       | Some d \<Rightarrow>
           (let w1 = store_dss (RemoveGroup_range grp d []) w
            in (Returned None,
                emit (Infof ''[%s] remove group '%s' successfully''
                        [S (name (ns w1)), S grp]) w1)))"

text \<open>The loop \<open>for k, v := range dss { newborn[k] = v }\<close> of RemoveDB and UpsertDB.\<close>

fun copy_range :: "topology \<Rightarrow> topology \<Rightarrow> topology" where
  "copy_range [] newborn = newborn"
| "copy_range ((k, v) # rest) newborn = copy_range rest (AList.update k v newborn)"

definition RemoveDB :: "string \<Rightarrow> string \<Rightarrow> world \<Rightarrow> outcome \<times> world" where
  "RemoveDB grp ident =
     locked (\<lambda>w.
       case dss (ns w) of
         None \<Rightarrow> (Panicked, w)
       | Some d \<Rightarrow>
           (case (case map_of d grp of
                    None \<Rightarrow> (nil_slice, None, fresh w)
                  | Some exist \<Rightarrow> rebuild (heap w) ident exist None (fresh w)) of
              (values, None, fr) \<Rightarrow> (Returned None, w\<lparr>fresh := fr\<rparr>)
            | (values, Some expired, fr) \<Rightarrow>
                (let newborn = AList.update grp values (copy_range d []);
                     w1 = store_dss newborn (w\<lparr>fresh := fr\<rparr>)
                 in (Returned None,
                     emit (Infof ''[%s] remove datasource %s.%s successfully''
                             [S (name (ns w1)), S grp, S ident]) w1))))"

definition UpsertDB :: "string \<Rightarrow> DB option \<Rightarrow> world \<Rightarrow> outcome \<times> world" where
  "UpsertDB grp ds =
     locked (\<lambda>w.
       case dss (ns w) of
         None \<Rightarrow> (Panicked, w)
       | Some current \<Rightarrow>
           (case ds of
              None \<Rightarrow> (Panicked, w)
            | Some d \<Rightarrow>
                (let ident = ID (heap w) d in
                 case (case map_of current grp of
                         None \<Rightarrow> (nil_slice, None, fresh w)
                       | Some exist \<Rightarrow>
                           drop_loop (heap w) ident (elems exist) (nil_slice, None, fresh w)) of
                   (values0, expired, fr0) \<Rightarrow>
                     (case append1 values0 d fr0 of
                        (values, fr) \<Rightarrow>
                          (let w1 = (case expired of
                                       None \<Rightarrow> w
                                     | Some e \<Rightarrow>
                                         emit (Infof ''todo: expire DB %s'' [S (ID (heap w) e)]) w);
                               newborn = AList.update grp values (copy_range current []);
                               w2 = store_dss newborn (w1\<lparr>fresh := fr\<rparr>)
                           in (Returned None,
                               emit (Infof ''[%s] upsert db %s.%s successfully''
                                       [S (name (ns w2)), S grp, S ident]) w2))))))"

subsection \<open>Rule and scalar configuration commands\<close>

definition UpdateRule :: "rule_ptr \<Rightarrow> world \<Rightarrow> outcome \<times> world" where
  "UpdateRule r =
     locked (\<lambda>w.
       (let w1 = store_rule r w
        in (Returned None,
            emit (Infof ''[%s] update rule successfully'' [S (name (ns w1))]) w1)))"

definition UpdateParameters :: "(string \<rightharpoonup> string) \<Rightarrow> world \<Rightarrow> outcome \<times> world" where
  "UpdateParameters ps w = (Returned None, w\<lparr>ns := (ns w)\<lparr>parameters := ps\<rparr>\<rparr>)"

text \<open>
  UpdateSlowThreshold reads the key \<open>constants.SlowThreshold\<close> and parses the value
  with \<open>time.ParseDuration\<close>. Neither is in this file: the key is the parameter
  \<open>key\<close>, the parser the parameter \<open>ParseDuration\<close>, \<open>None\<close> when it returns an error.
\<close>

definition UpdateSlowThreshold ::
  "string \<Rightarrow> (string \<Rightarrow> int option) \<Rightarrow> world \<Rightarrow> outcome \<times> world" where
  "UpdateSlowThreshold key ParseDuration w =
     (case parameters (ns w) key of
        None \<Rightarrow> (Returned None, w)
      | Some s \<Rightarrow>
          (case ParseDuration s of
             None \<Rightarrow> (Returned None, w)
           | Some d \<Rightarrow> (Returned None, w\<lparr>ns := (ns w)\<lparr>slowThreshold := d\<rparr>\<rparr>)))"

text \<open>
  Modelled from the spec: \<open>log.NewSlowLogger\<close>, which is missing; it constructs a new
  slow-query logger handle from the given path and config.
\<close>

definition NewSlowLogger :: "string \<Rightarrow> nat \<Rightarrow> logger" where
  "NewSlowLogger path cfg = SlowLogger path cfg"

definition UpdateSlowLogger :: "string \<Rightarrow> nat \<Rightarrow> world \<Rightarrow> outcome \<times> world" where
  "UpdateSlowLogger path cfg w =
     (Returned None, w\<lparr>ns := (ns w)\<lparr>slowLog := Some (NewSlowLogger path cfg)\<rparr>\<rparr>)"

subsection \<open>The registry of commands\<close>

text \<open>One constructor per command of the file, and the closure each one builds.\<close>

datatype command =
    CUpdateWeight string string Weight
  | CRemoveNode string string
  | CRemoveGroup string
  | CRemoveDB string string
  | CUpsertDB string "DB option"
  | CUpdateRule rule_ptr
  | CUpdateParameters "string \<rightharpoonup> string"
  | CUpdateSlowThreshold
  | CUpdateSlowLogger string nat

fun run :: "string \<Rightarrow> (string \<Rightarrow> int option) \<Rightarrow> command \<Rightarrow> world \<Rightarrow> outcome \<times> world" where
  "run key pd (CUpdateWeight g i wt) = UpdateWeight g i wt"
| "run key pd (CRemoveNode g i) = RemoveNode g i"
| "run key pd (CRemoveGroup g) = RemoveGroup g"
| "run key pd (CRemoveDB g i) = RemoveDB g i"
| "run key pd (CUpsertDB g d) = UpsertDB g d"
| "run key pd (CUpdateRule r) = UpdateRule r"
| "run key pd (CUpdateParameters ps) = UpdateParameters ps"
| "run key pd CUpdateSlowThreshold = UpdateSlowThreshold key pd"
| "run key pd (CUpdateSlowLogger path cfg) = UpdateSlowLogger path cfg"

text \<open>UpsertDB with the nil interface value for its handle.\<close>

fun nil_handle :: "command \<Rightarrow> bool" where
  "nil_handle (CUpsertDB g None) = True"
| "nil_handle c = False"

text \<open>The four commands that rebuild the topology.\<close>

fun topology_command :: "command \<Rightarrow> bool" where
  "topology_command (CUpsertDB g d) = True"
| "topology_command (CRemoveNode g i) = True"
| "topology_command (CRemoveDB g i) = True"
| "topology_command (CRemoveGroup g) = True"
| "topology_command c = False"

text \<open>
  A sequence of commands, applied one after the other to the same Namespace; a
  command that does not report success (a panic, or an error if there were one) ends
  the run.
\<close>

fun apply_all :: "string \<Rightarrow> (string \<Rightarrow> int option) \<Rightarrow> command list \<Rightarrow> world \<Rightarrow> outcome \<times> world" where
  "apply_all key pd [] w = (Returned None, w)"
| "apply_all key pd (c # cs) w =
     (case run key pd c w of
        (Returned None, w') \<Rightarrow> apply_all key pd cs w'
      | (r, w') \<Rightarrow> (r, w'))"

subsection \<open>What the claims speak about\<close>

text \<open>The content of a topology: each group with its sequence of handles.\<close>

definition content :: "topology \<Rightarrow> string \<rightharpoonup> DB list" where
  "content t k = map_option elems (map_of t k)"

text \<open>Group \<open>g\<close> exists and holds a handle with the ID.\<close>

definition has_id :: "heap \<Rightarrow> topology \<Rightarrow> string \<Rightarrow> string \<Rightarrow> bool" where
  "has_id h t g i = (case map_of t g of None \<Rightarrow> False | Some s \<Rightarrow> i \<in> set (map (ID h) (elems s)))"

text \<open>Within every group the handle IDs are pairwise distinct.\<close>

definition ids_distinct :: "heap \<Rightarrow> topology \<Rightarrow> bool" where
  "ids_distinct h t = list_all (\<lambda>p. distinct (map (ID h) (elems (snd p)))) t"

text \<open>
  The invariant of the topology: a map is stored, its keys are distinct, and within
  every group the handle IDs are pairwise distinct.
\<close>

definition invariant :: "world \<Rightarrow> bool" where
  "invariant w = (case dss (ns w) of None \<Rightarrow> False | Some t \<Rightarrow> keys_ok t \<and> ids_distinct (heap w) t)"

text \<open>The events a command adds to the trace.\<close>

definition emitted :: "(world \<Rightarrow> outcome \<times> world) \<Rightarrow> world \<Rightarrow> event list" where
  "emitted c w = drop (length (trace w)) (trace (snd (c w)))"

subsection \<open>A small world to run the commands in\<close>

text \<open>
  Handles 1, 2 and 3 are the datasources db_a, db_b and db_c; handle 4 is a second
  object with the ID db_a, and every other address an object with the ID db_c.
  Negative weights are rejected, and closing db_b fails.
\<close>

definition example_heap :: heap where
  "example_heap a =
     \<lparr>db_id = (if a = 1 \<or> a = 4 then ''db_a'' else if a = 2 then ''db_b'' else ''db_c''),
      db_weight = (1, 1),
      db_rejects = (\<lambda>wt. fst wt < 0 \<or> snd wt < 0),
      db_close_fails = (a = 2),
      db_closed = 0\<rparr>"

definition example_topology :: topology where
  "example_topology =
     [(''g1'', \<lparr>arr = Some 0, elems = [1, 2], cap = 2\<rparr>),
      (''g2'', \<lparr>arr = Some 1, elems = [3], cap = 1\<rparr>)]"

definition example_world :: "topology option \<Rightarrow> world" where
  "example_world d =
     \<lparr>ns = \<lparr>name = ''employees'', dss = d, rule = None,
            parameters = [''slow_threshold'' \<mapsto> ''1s'', ''stale_threshold'' \<mapsto> ''garbage''],
            slowThreshold = 0, slowLog = None\<rparr>,
      heap = example_heap, fresh = 2, trace = []\<rparr>"

definition example_parse :: "string \<Rightarrow> int option" where
  "example_parse s = (if s = ''1s'' then Some 1000000000 else None)"

section \<open>Facts about the loops\<close>

lemma append1_elems: "elems (fst (append1 s x fr)) = elems s @ [x]"
  by (simp add: append1_def)

lemma drop_loop_elems:
  "elems (fst (drop_loop h i xs (vals, ex, fr))) = elems vals @ filter (\<lambda>x. ID h x \<noteq> i) xs"
proof (induction xs arbitrary: vals ex fr)
  case Nil
  then show ?case by simp
next
  case (Cons x xs)
  show ?case
  proof (cases "ID h x = i")
    case True
    then show ?thesis using Cons.IH by simp
  next
    case False
    obtain v' fr' where a: "append1 vals x fr = (v', fr')" by (cases "append1 vals x fr")
    have "elems v' = elems vals @ [x]" using append1_elems [of vals x fr] a by simp
    then show ?thesis using False a Cons.IH [of v' ex fr'] by simp
  qed
qed

lemma drop_loop_expired:
  "fst (snd (drop_loop h i xs (vals, ex, fr))) =
     (case filter (\<lambda>x. ID h x = i) xs of [] \<Rightarrow> ex | y # ys \<Rightarrow> Some (last (y # ys)))"
proof (induction xs arbitrary: vals ex fr)
  case Nil
  then show ?case by simp
next
  case (Cons x xs)
  show ?case
  proof (cases "ID h x = i")
    case True
    then show ?thesis using Cons.IH [of vals "Some x" fr] by (simp split: list.splits)
  next
    case False
    obtain v' fr' where a: "append1 vals x fr = (v', fr')" by (cases "append1 vals x fr")
    then show ?thesis using False Cons.IH [of v' ex fr'] by simp
  qed
qed

lemma update_fresh_key: "k \<notin> fst ` set al \<Longrightarrow> AList.update k v al = al @ [(k, v)]"
  by (induction al) auto

lemma copy_range_append:
  "distinct (map fst t) \<Longrightarrow> fst ` set t \<inter> fst ` set nb = {} \<Longrightarrow> copy_range t nb = nb @ t"
proof (induction t arbitrary: nb)
  case Nil
  then show ?case by simp
next
  case (Cons p t)
  obtain k v where p: "p = (k, v)" by (cases p)
  have 1: "k \<notin> fst ` set nb" using Cons.prems p by auto
  have 2: "fst ` set t \<inter> fst ` set (nb @ [(k, v)]) = {}" using Cons.prems p by auto
  have 3: "distinct (map fst t)" using Cons.prems by simp
  show ?case using Cons.IH [OF 3 2] p 1 by (simp add: update_fresh_key)
qed

lemma copy_range_same: "keys_ok t \<Longrightarrow> copy_range t [] = t"
  using copy_range_append [of t "[]"] by (simp add: keys_ok_def)

lemma RemoveGroup_range_append:
  "distinct (map fst t) \<Longrightarrow> fst ` set t \<inter> fst ` set nb = {} \<Longrightarrow>
   RemoveGroup_range g t nb = nb @ filter (\<lambda>p. fst p \<noteq> g) t"
proof (induction t arbitrary: nb)
  case Nil
  then show ?case by simp
next
  case (Cons p t)
  obtain k v where p: "p = (k, v)" by (cases p)
  have 1: "k \<notin> fst ` set nb" using Cons.prems p by auto
  have 2: "fst ` set t \<inter> fst ` set (nb @ [(k, v)]) = {}" using Cons.prems p by auto
  have 4: "fst ` set t \<inter> fst ` set nb = {}" using Cons.prems p by auto
  have 3: "distinct (map fst t)" using Cons.prems by simp
  show ?case using Cons.IH [OF 3 2] Cons.IH [OF 3 4] p 1 by (simp add: update_fresh_key)
qed

lemma map_other_keys: "g \<notin> fst ` set t \<Longrightarrow> map (\<lambda>p. if fst p = g then (g, s) else p) t = t"
  by (induction t) auto

lemma RemoveNode_range_absent:
  "distinct (map fst t) \<Longrightarrow> fst ` set t \<inter> fst ` set nb = {} \<Longrightarrow> g \<notin> fst ` set t \<Longrightarrow>
   RemoveNode_range h g n t (nb, r, fr) = (nb @ t, r, fr)"
proof (induction t arbitrary: nb)
  case Nil
  then show ?case by simp
next
  case (Cons p t)
  obtain k v where p: "p = (k, v)" by (cases p)
  have 1: "k \<notin> fst ` set nb" using Cons.prems p by auto
  have 2: "fst ` set t \<inter> fst ` set (nb @ [(k, v)]) = {}" using Cons.prems p by auto
  have 3: "distinct (map fst t)" using Cons.prems by simp
  have 4: "g \<notin> fst ` set t" "k \<noteq> g" using Cons.prems p by auto
  show ?case using Cons.IH [OF 3 2 4(1)] p 1 4(2) by (simp add: update_fresh_key)
qed

lemma RemoveNode_range_present:
  "distinct (map fst t) \<Longrightarrow> fst ` set t \<inter> fst ` set nb = {} \<Longrightarrow> map_of t g = Some v \<Longrightarrow>
   RemoveNode_range h g n t (nb, r, fr) =
     (nb @ map (\<lambda>p. if fst p = g then (g, fst (rebuild h n v r fr)) else p) t,
      fst (snd (rebuild h n v r fr)), snd (snd (rebuild h n v r fr)))"
proof (induction t arbitrary: nb)
  case Nil
  then show ?case by simp
next
  case (Cons p t)
  obtain k u where p: "p = (k, u)" by (cases p)
  have 1: "k \<notin> fst ` set nb" using Cons.prems p by auto
  have 3: "distinct (map fst t)" using Cons.prems by simp
  show ?case
  proof (cases "k = g")
    case True
    then have uv: "u = v" using Cons.prems p by simp
    have g: "g \<notin> fst ` set t" using Cons.prems p True by auto
    obtain nv r' fr' where rb: "rebuild h n v r fr = (nv, r', fr')" by (cases "rebuild h n v r fr")
    have 2: "fst ` set t \<inter> fst ` set (nb @ [(g, nv)]) = {}" using Cons.prems p True by auto
    have "RemoveNode_range h g n t (nb @ [(g, nv)], r', fr') = ((nb @ [(g, nv)]) @ t, r', fr')"
      using RemoveNode_range_absent [OF 3 2 g] .
    then show ?thesis
      using p True uv 1 rb g
      by (simp add: update_fresh_key rebuild_def map_other_keys)
  next
    case False
    have 2: "fst ` set t \<inter> fst ` set (nb @ [(k, u)]) = {}" using Cons.prems p by auto
    have 4: "map_of t g = Some v" using Cons.prems p False by simp
    show ?thesis using Cons.IH [OF 3 2 4] p 1 False by (simp add: update_fresh_key)
  qed
qed

lemma RemoveNode_range_None:
  "keys_ok t \<Longrightarrow> map_of t g = None \<Longrightarrow> RemoveNode_range h g n t ([], None, fr) = (t, None, fr)"
  using RemoveNode_range_absent [of t "[]" g h n None fr]
  by (simp add: keys_ok_def map_of_eq_None_iff)

lemma RemoveNode_range_Some:
  "keys_ok t \<Longrightarrow> map_of t g = Some v \<Longrightarrow>
   RemoveNode_range h g n t ([], None, fr) =
     (map (\<lambda>p. if fst p = g then (g, fst (rebuild h n v None fr)) else p) t,
      fst (snd (rebuild h n v None fr)), snd (snd (rebuild h n v None fr)))"
  using RemoveNode_range_present [of t "[]" g v h n None fr]
  by (simp add: keys_ok_def)

lemma rebuild_elems: "elems (fst (rebuild h n v r fr)) = filter (\<lambda>x. ID h x \<noteq> n) (elems v)"
  by (simp add: rebuild_def make_slice_def drop_loop_elems)

lemma rebuild_removed:
  "fst (snd (rebuild h n v r fr)) =
     (case filter (\<lambda>x. ID h x = n) (elems v) of [] \<Rightarrow> r | y # ys \<Rightarrow> Some (last (y # ys)))"
  by (simp add: rebuild_def make_slice_def drop_loop_expired)

lemma RemoveGroup_range_filter: "keys_ok t \<Longrightarrow> RemoveGroup_range g t [] = filter (\<lambda>p. fst p \<noteq> g) t"
  using RemoveGroup_range_append [of t "[]" g] by (simp add: keys_ok_def)

lemma map_of_rebuild_other:
  "k \<noteq> g \<Longrightarrow> map_of (map (\<lambda>p. if fst p = g then (g, s) else p) t) k = map_of t k"
  by (induction t) auto

lemma map_of_rebuild_same:
  "map_of (map (\<lambda>p. if fst p = g then (g, s) else p) t) g = map_option (\<lambda>_. s) (map_of t g)"
  by (induction t) auto

lemma map_of_filter_other: "k \<noteq> g \<Longrightarrow> map_of (filter (\<lambda>p. fst p \<noteq> g) t) k = map_of t k"
  by (induction t) auto

lemma map_of_filter_same: "map_of (filter (\<lambda>p. fst p \<noteq> g) t) g = None"
  by (induction t) auto

section \<open>What each command returns\<close>

text \<open>
  Every return statement of the nine closures is \<open>return nil\<close>. What is left is
  the panic: on a Value that holds no map the one-result type assertion of
  UpdateWeight, RemoveDB and UpsertDB panics, where RemoveNode and RemoveGroup, with
  the two-result form, return nil; and UpsertDB panics at \<open>ds.ID()\<close> on the nil
  handle.
\<close>

lemma locked_fst: "fst (locked body w) = fst (body (emit Lock w))"
  by (simp add: locked_def split: prod.splits)

lemma dss_emit: "dss (ns (emit e w)) = dss (ns w)"
  by (simp add: emit_def)

lemma UpdateWeight_outcome:
  "fst (UpdateWeight g i wt w) = (if dss (ns w) = None then Panicked else Returned None)"
  by (simp add: UpdateWeight_def locked_fst dss_emit split: option.splits prod.splits)

lemma RemoveNode_outcome: "fst (RemoveNode g i w) = Returned None"
  by (simp add: RemoveNode_def locked_fst Let_def split: option.splits prod.splits)

lemma RemoveGroup_outcome: "fst (RemoveGroup g w) = Returned None"
  by (simp add: RemoveGroup_def locked_fst Let_def split: option.splits prod.splits)

lemma RemoveDB_outcome:
  "fst (RemoveDB g i w) = (if dss (ns w) = None then Panicked else Returned None)"
  by (simp add: RemoveDB_def locked_fst dss_emit Let_def split: option.splits prod.splits)

lemma UpsertDB_outcome:
  "fst (UpsertDB g d w) = (if dss (ns w) = None \<or> d = None then Panicked else Returned None)"
  by (simp add: UpsertDB_def locked_fst dss_emit Let_def split: option.splits prod.splits)






section \<open>The world each command leaves\<close>

lemmas world_defs = locked_def emit_def store_dss_def store_rule_def Close_def SetWeight_def Let_def

lemma RemoveNode_unset:
  "dss (ns w) = None \<Longrightarrow> snd (RemoveNode g i w) = w\<lparr>trace := trace w @ [Lock, Unlock]\<rparr>"
  by (simp add: RemoveNode_def world_defs)

lemma RemoveNode_no_group:
  assumes "dss (ns w) = Some t" "keys_ok t" "map_of t g = None"
  shows "snd (RemoveNode g i w) =
           w\<lparr>ns := (ns w)\<lparr>dss := Some t\<rparr>,
             trace := trace w @ [Lock, StoreDss t,
               Infof ''[%s] remove node '%s' from group '%s' successfully'' [S (name (ns w)), S i, S g],
               Unlock]\<rparr>"
  using assms by (simp add: RemoveNode_def world_defs RemoveNode_range_None)

lemma RemoveNode_group:
  assumes "dss (ns w) = Some t" "keys_ok t" "map_of t g = Some v"
    and "rebuild (heap w) i v None (fresh w) = (nv, removed, fr)"
    and "t' = map (\<lambda>p. if fst p = g then (g, nv) else p) t"
  shows "snd (RemoveNode g i w) =
           (case removed of
              None \<Rightarrow>
                w\<lparr>ns := (ns w)\<lparr>dss := Some t'\<rparr>, fresh := fr,
                  trace := trace w @ [Lock, StoreDss t',
                    Infof ''[%s] remove node '%s' from group '%s' successfully'' [S (name (ns w)), S i, S g],
                    Unlock]\<rparr>
            | Some r \<Rightarrow>
                w\<lparr>ns := (ns w)\<lparr>dss := Some t'\<rparr>, fresh := fr,
                  heap := (heap w)(r := (heap w r)\<lparr>db_closed := Suc (db_closed (heap w r))\<rparr>),
                  trace := trace w @ [Lock, StoreDss t', CallClose r,
                    Infof ''[%s] remove node '%s' from group '%s' successfully'' [S (name (ns w)), S i, S g],
                    Unlock]\<rparr>)"
  using assms by (simp add: RemoveNode_def world_defs RemoveNode_range_Some split: option.splits)

lemma RemoveGroup_unset:
  "dss (ns w) = None \<Longrightarrow> snd (RemoveGroup g w) = w\<lparr>trace := trace w @ [Lock, Unlock]\<rparr>"
  by (simp add: RemoveGroup_def world_defs)

lemma RemoveGroup_set:
  assumes "dss (ns w) = Some t" "keys_ok t"
  shows "snd (RemoveGroup g w) =
           w\<lparr>ns := (ns w)\<lparr>dss := Some (filter (\<lambda>p. fst p \<noteq> g) t)\<rparr>,
             trace := trace w @ [Lock, StoreDss (filter (\<lambda>p. fst p \<noteq> g) t),
               Infof ''[%s] remove group '%s' successfully'' [S (name (ns w)), S g],
               Unlock]\<rparr>"
  using assms by (simp add: RemoveGroup_def world_defs RemoveGroup_range_filter)

lemma RemoveDB_unset:
  "dss (ns w) = None \<Longrightarrow> snd (RemoveDB g i w) = w\<lparr>trace := trace w @ [Lock, Unlock]\<rparr>"
  by (simp add: RemoveDB_def world_defs)

lemma RemoveDB_no_group:
  assumes "dss (ns w) = Some t" "map_of t g = None"
  shows "snd (RemoveDB g i w) = w\<lparr>trace := trace w @ [Lock, Unlock]\<rparr>"
  using assms by (simp add: RemoveDB_def world_defs)

lemma RemoveDB_group:
  assumes "dss (ns w) = Some t" "keys_ok t" "map_of t g = Some v"
    and "rebuild (heap w) i v None (fresh w) = (nv, expired, fr)"
  shows "snd (RemoveDB g i w) =
           (case expired of
              None \<Rightarrow> w\<lparr>fresh := fr, trace := trace w @ [Lock, Unlock]\<rparr>
            | Some e \<Rightarrow>
                w\<lparr>ns := (ns w)\<lparr>dss := Some (AList.update g nv t)\<rparr>, fresh := fr,
                  trace := trace w @ [Lock, StoreDss (AList.update g nv t),
                    Infof ''[%s] remove datasource %s.%s successfully'' [S (name (ns w)), S g, S i],
                    Unlock]\<rparr>)"
  using assms by (simp add: RemoveDB_def world_defs copy_range_same split: option.splits)

lemma UpsertDB_unset:
  "dss (ns w) = None \<Longrightarrow> snd (UpsertDB g d w) = w\<lparr>trace := trace w @ [Lock, Unlock]\<rparr>"
  by (simp add: UpsertDB_def world_defs)

lemma UpsertDB_nil:
  "snd (UpsertDB g None w) = w\<lparr>trace := trace w @ [Lock, Unlock]\<rparr>"
  by (simp add: UpsertDB_def world_defs split: option.splits)

lemma find_bingo_None: "find_bingo h i xs = None \<longleftrightarrow> i \<notin> set (map (ID h) xs)"
  by (induction xs) auto

lemma find_bingo_absent: "i \<notin> ID h ` set xs \<Longrightarrow> find_bingo h i xs = None"
  by (induction xs) auto

lemma find_bingo_Some: "find_bingo h i xs = Some b \<Longrightarrow> b \<in> set xs \<and> ID h b = i"
  by (induction xs) (auto split: if_splits)

lemma UpdateWeight_absent:
  assumes "dss (ns w) = Some t" "\<not> has_id (heap w) t g i"
  shows "snd (UpdateWeight g i wt w) =
           w\<lparr>trace := trace w @ [Lock,
               Errorf ''[%s] failed to update weight: no such datasource %s.%s'' [S (name (ns w)), S g, S i],
               Unlock]\<rparr>"
  using assms
  by (auto simp: UpdateWeight_def world_defs has_id_def find_bingo_absent split: option.splits)

lemma UpdateWeight_rejected:
  assumes "dss (ns w) = Some t" "map_of t g = Some s" "find_bingo (heap w) i (elems s) = Some b"
    and "db_rejects (heap w b) wt"
  shows "snd (UpdateWeight g i wt w) =
           w\<lparr>trace := trace w @ [Lock, CallSetWeight b wt,
               Errorf ''[%s] failed to update weight of datasource %s.%s: %v''
                 [S (name (ns w)), S g, S i, E BackendError],
               Unlock]\<rparr>"
  using assms by (simp add: UpdateWeight_def world_defs)

lemma UpdateWeight_accepted:
  assumes "dss (ns w) = Some t" "map_of t g = Some s" "find_bingo (heap w) i (elems s) = Some b"
    and "\<not> db_rejects (heap w b) wt"
  shows "snd (UpdateWeight g i wt w) =
           w\<lparr>heap := (heap w)(b := (heap w b)\<lparr>db_weight := wt\<rparr>),
             trace := trace w @ [Lock, CallSetWeight b wt,
               Infof ''[%s] update weight of datasource %s.%s successfully''
                 [S (name (ns w)), S g, S i],
               Unlock]\<rparr>"
  using assms by (simp add: UpdateWeight_def world_defs)

lemma UpdateWeight_unset:
  "dss (ns w) = None \<Longrightarrow> snd (UpdateWeight g i wt w) = w\<lparr>trace := trace w @ [Lock, Unlock]\<rparr>"
  by (simp add: UpdateWeight_def world_defs)

lemma UpdateWeight_cases:
  "\<not> has_id h t g i
   \<or> (\<exists>s b. map_of t g = Some s \<and> find_bingo h i (elems s) = Some b)"
proof (cases "map_of t g")
  case None
  then show ?thesis by (simp add: has_id_def)
next
  case (Some s)
  then show ?thesis by (cases "find_bingo h i (elems s)") (simp_all add: has_id_def find_bingo_None)
qed

lemma content_rebuild:
  assumes "map_of t g = Some v" "elems nv = elems v"
  shows "content (map (\<lambda>p. if fst p = g then (g, nv) else p) t) = content t"
proof
  fix k
  show "content (map (\<lambda>p. if fst p = g then (g, nv) else p) t) k = content t k"
    using assms by (cases "k = g") (simp_all add: content_def map_of_rebuild_other map_of_rebuild_same)
qed

lemma filter_absent_key: "map_of t g = None \<Longrightarrow> filter (\<lambda>p. fst p \<noteq> g) t = t"
  by (induction t) (auto split: if_splits)

lemma filter_no_match: "i \<notin> ID h ` set xs \<Longrightarrow> filter (\<lambda>x. ID h x \<noteq> i) xs = xs"
  by (induction xs) auto

lemma filter_no_match_eq: "i \<notin> ID h ` set xs \<Longrightarrow> filter (\<lambda>x. ID h x = i) xs = []"
  by (induction xs) auto

lemma rebuild_absent:
  "i \<notin> ID h ` set (elems v) \<Longrightarrow>
   elems (fst (rebuild h i v r fr)) = elems v \<and> fst (snd (rebuild h i v r fr)) = r"
  by (simp add: rebuild_elems rebuild_removed filter_no_match filter_no_match_eq)

lemma UpsertDB_world:
  assumes "dss (ns w) = Some t"
    and "(case map_of t g of
            None \<Rightarrow> (nil_slice, None, fresh w)
          | Some exist \<Rightarrow> drop_loop (heap w) (ID (heap w) d) (elems exist) (nil_slice, None, fresh w))
         = (vals, expired, fr0)"
    and "append1 vals d fr0 = (nv, fr)"
    and "t' = AList.update g nv (copy_range t [])"
  shows "snd (UpsertDB g (Some d) w) =
           w\<lparr>ns := (ns w)\<lparr>dss := Some t'\<rparr>, fresh := fr,
             trace := trace w @ [Lock] @
               (case expired of None \<Rightarrow> [] | Some e \<Rightarrow> [Infof ''todo: expire DB %s'' [S (ID (heap w) e)]]) @
               [StoreDss t',
                Infof ''[%s] upsert db %s.%s successfully'' [S (name (ns w)), S g, S (ID (heap w) d)],
                Unlock]\<rparr>"
  using assms by (simp add: UpsertDB_def world_defs split: option.splits)

lemma upsert_elems:
  assumes "(case map_of t g of
            None \<Rightarrow> (nil_slice, None, fr)
          | Some exist \<Rightarrow> drop_loop h i (elems exist) (nil_slice, None, fr))
         = (vals, expired, fr0)"
    and "append1 vals d fr0 = (nv, fr1)"
  shows "elems nv =
           (case map_of t g of None \<Rightarrow> [] | Some exist \<Rightarrow> filter (\<lambda>x. ID h x \<noteq> i) (elems exist)) @ [d]"
proof -
  have "elems vals = (case map_of t g of None \<Rightarrow> [] | Some exist \<Rightarrow> filter (\<lambda>x. ID h x \<noteq> i) (elems exist))"
  proof (cases "map_of t g")
    case None
    then show ?thesis using assms(1) by (auto simp: nil_slice_def)
  next
    case (Some exist)
    then show ?thesis
      using assms(1) drop_loop_elems [of h i "elems exist" nil_slice None fr]
      by (simp add: nil_slice_def)
  qed
  then show ?thesis using append1_elems [of vals d fr0] assms(2) by simp
qed

lemma UpsertDB_dss:
  assumes "dss (ns w) = Some t" "keys_ok t"
  shows "\<exists>nv. dss (ns (snd (UpsertDB g (Some d) w))) = Some (AList.update g nv t)
            \<and> elems nv =
                (case map_of t g of None \<Rightarrow> []
                 | Some exist \<Rightarrow> filter (\<lambda>x. ID (heap w) x \<noteq> ID (heap w) d) (elems exist)) @ [d]"
proof -
  obtain vals expired fr0 where dl:
    "(case map_of t g of
        None \<Rightarrow> (nil_slice, None, fresh w)
      | Some exist \<Rightarrow> drop_loop (heap w) (ID (heap w) d) (elems exist) (nil_slice, None, fresh w))
     = (vals, expired, fr0)"
    by (metis prod_cases3)
  obtain nv fr where ap: "append1 vals d fr0 = (nv, fr)" by (cases "append1 vals d fr0")
  have "dss (ns (snd (UpsertDB g (Some d) w))) = Some (AList.update g nv t)"
    using UpsertDB_world [OF assms(1) dl ap refl] copy_range_same [OF assms(2)] by simp
  then show ?thesis using upsert_elems [OF dl ap] by blast
qed

lemma RemoveNode_dss:
  assumes "dss (ns w) = Some t" "keys_ok t"
  shows "dss (ns (snd (RemoveNode g i w))) =
           Some (case map_of t g of
                   None \<Rightarrow> t
                 | Some v \<Rightarrow> map (\<lambda>p. if fst p = g then (g, fst (rebuild (heap w) i v None (fresh w))) else p) t)"
proof (cases "map_of t g")
  case None
  then show ?thesis using RemoveNode_no_group [OF assms None, of i] by simp
next
  case (Some v)
  obtain nv removed fr where rb: "rebuild (heap w) i v None (fresh w) = (nv, removed, fr)"
    by (cases "rebuild (heap w) i v None (fresh w)")
  show ?thesis using RemoveNode_group [OF assms Some rb refl] Some rb by (simp split: option.splits)
qed

lemma RemoveDB_dss:
  assumes "dss (ns w) = Some t" "keys_ok t"
  shows "dss (ns (snd (RemoveDB g i w))) =
           Some (case map_of t g of
                   None \<Rightarrow> t
                 | Some v \<Rightarrow>
                     (case fst (snd (rebuild (heap w) i v None (fresh w))) of
                        None \<Rightarrow> t
                      | Some e \<Rightarrow> AList.update g (fst (rebuild (heap w) i v None (fresh w))) t))"
proof (cases "map_of t g")
  case None
  then show ?thesis using RemoveDB_no_group [OF assms(1) None, of i] assms(1) by simp
next
  case (Some v)
  obtain nv expired fr where rb: "rebuild (heap w) i v None (fresh w) = (nv, expired, fr)"
    by (cases "rebuild (heap w) i v None (fresh w)")
  show ?thesis using RemoveDB_group [OF assms Some rb] Some rb assms(1) by (simp split: option.splits)
qed

lemma RemoveGroup_dss:
  assumes "dss (ns w) = Some t" "keys_ok t"
  shows "dss (ns (snd (RemoveGroup g w))) = Some (filter (\<lambda>p. fst p \<noteq> g) t)"
  using RemoveGroup_set [OF assms, of g] by simp

lemma UpsertDB_quiet:
  assumes "dss (ns w) = Some t"
  shows "heap (snd (UpsertDB g ds w)) = heap w \<and> (\<forall>x. CallClose x \<notin> set (emitted (UpsertDB g ds) w))"
proof (cases ds)
  case None
  then show ?thesis by (simp add: UpsertDB_nil emitted_def)
next
  case (Some d)
  obtain vals expired fr0 where dl:
    "(case map_of t g of
        None \<Rightarrow> (nil_slice, None, fresh w)
      | Some exist \<Rightarrow> drop_loop (heap w) (ID (heap w) d) (elems exist) (nil_slice, None, fresh w))
     = (vals, expired, fr0)"
    by (metis prod_cases3)
  obtain nv fr where ap: "append1 vals d fr0 = (nv, fr)" by (cases "append1 vals d fr0")
  show ?thesis
    using UpsertDB_world [OF assms(1) dl ap refl] Some
    by (simp add: emitted_def split: option.splits)
qed

lemma RemoveDB_quiet:
  assumes "dss (ns w) = Some t" "keys_ok t"
  shows "heap (snd (RemoveDB g i w)) = heap w \<and> (\<forall>x. CallClose x \<notin> set (emitted (RemoveDB g i) w))"
proof (cases "map_of t g")
  case None
  then show ?thesis using RemoveDB_no_group [OF assms(1) None, of i] by (simp add: emitted_def)
next
  case (Some v)
  obtain nv expired fr where rb: "rebuild (heap w) i v None (fresh w) = (nv, expired, fr)"
    by (cases "rebuild (heap w) i v None (fresh w)")
  show ?thesis using RemoveDB_group [OF assms Some rb] by (simp add: emitted_def split: option.splits)
qed

lemma RemoveNode_closes:
  assumes "dss (ns w) = Some t" "keys_ok t" "map_of t g = Some s"
    and "filter (\<lambda>y. ID (heap w) y = i) (elems s) = [x]"
  shows "\<exists>t'. emitted (RemoveNode g i) w =
                 [Lock, StoreDss t', CallClose x,
                  Infof ''[%s] remove node '%s' from group '%s' successfully''
                    [S (name (ns w)), S i, S g],
                  Unlock]
             \<and> dss (ns (snd (RemoveNode g i w))) = Some t'
             \<and> \<not> has_id (heap w) t' g i
             \<and> db_closed (heap (snd (RemoveNode g i w)) x) = Suc (db_closed (heap w x))"
proof -
  obtain nv removed fr where rb: "rebuild (heap w) i s None (fresh w) = (nv, removed, fr)"
    by (cases "rebuild (heap w) i s None (fresh w)")
  have rm: "removed = Some x"
    using rebuild_removed [of "heap w" i s None "fresh w"] rb assms(4) by simp
  have nv: "elems nv = filter (\<lambda>y. ID (heap w) y \<noteq> i) (elems s)"
    using rebuild_elems [of "heap w" i s None "fresh w"] rb by simp
  let ?t' = "map (\<lambda>p. if fst p = g then (g, nv) else p) t"
  have "map_of ?t' g = Some nv" using assms(3) by (simp add: map_of_rebuild_same)
  then have gone: "\<not> has_id (heap w) ?t' g i" by (auto simp: has_id_def nv)
  show ?thesis
    using RemoveNode_group [OF assms(1,2,3) rb refl] rm gone by (simp add: emitted_def)
qed

lemma ids_distinct_update:
  "ids_distinct h t \<Longrightarrow> distinct (map (ID h) (elems v)) \<Longrightarrow> ids_distinct h (AList.update k v t)"
  by (induction t) (auto simp: ids_distinct_def)

lemma ids_distinct_rebuild:
  "ids_distinct h t \<Longrightarrow> distinct (map (ID h) (elems v)) \<Longrightarrow>
   ids_distinct h (map (\<lambda>p. if fst p = g then (g, v) else p) t)"
  by (induction t) (auto simp: ids_distinct_def)

lemma ids_distinct_filter: "ids_distinct h t \<Longrightarrow> ids_distinct h (filter P t)"
  by (induction t) (auto simp: ids_distinct_def)

lemma ids_distinct_lookup: "ids_distinct h t \<Longrightarrow> map_of t g = Some v \<Longrightarrow> distinct (map (ID h) (elems v))"
  by (induction t) (auto simp: ids_distinct_def split: if_splits)

lemma ids_distinct_cong: "ID h' = ID h \<Longrightarrow> ids_distinct h' t = ids_distinct h t"
  by (simp add: ids_distinct_def)

lemma keys_ok_update: "keys_ok t \<Longrightarrow> keys_ok (AList.update k v t)"
  by (simp add: keys_ok_def distinct_update)

lemma keys_ok_rebuild: "keys_ok t \<Longrightarrow> keys_ok (map (\<lambda>p. if fst p = g then (g, v) else p) t)"
proof -
  have "map fst (map (\<lambda>p. if fst p = g then (g, v) else p) t) = map fst t"
    by (induction t) auto
  then show "keys_ok t \<Longrightarrow> ?thesis" unfolding keys_ok_def by (simp only:)
qed

lemma keys_ok_filter: "keys_ok t \<Longrightarrow> keys_ok (filter P t)"
  by (simp add: keys_ok_def distinct_map_filter)

lemma distinct_upsert:
  "distinct (map f xs) \<Longrightarrow> distinct (map f (filter (\<lambda>x. f x \<noteq> f d) xs @ [d]))"
  by (auto simp: distinct_map_filter)

lemma ID_closed: "ID (h(r := (h r)\<lparr>db_closed := n\<rparr>)) = ID h"
  by (auto simp: ID_def fun_eq_iff)

lemma RemoveNode_heap_ID: 
  assumes "dss (ns w) = Some t" "keys_ok t"
  shows "ID (heap (snd (RemoveNode g i w))) = ID (heap w)"
proof (cases "map_of t g")
  case None
  then show ?thesis using RemoveNode_no_group [OF assms None, of i] by simp
next
  case (Some v)
  obtain nv removed fr where rb: "rebuild (heap w) i v None (fresh w) = (nv, removed, fr)"
    by (cases "rebuild (heap w) i v None (fresh w)")
  show ?thesis using RemoveNode_group [OF assms Some rb refl] by (simp add: ID_closed split: option.splits)
qed

lemma step_invariant:
  assumes "invariant w" "topology_command c"
  shows "invariant (snd (run key pd c w))
       \<and> (\<not> nil_handle c \<longrightarrow> fst (run key pd c w) = Returned None)"
proof -
  obtain t where t: "dss (ns w) = Some t" "keys_ok t" "ids_distinct (heap w) t"
    using assms(1) by (auto simp: invariant_def split: option.splits)
  show ?thesis
  proof (cases c)
    case (CUpsertDB g ds)
    show ?thesis
    proof (cases ds)
      case None
      then show ?thesis using CUpsertDB t by (simp add: UpsertDB_nil invariant_def)
    next
      case (Some d)
      obtain nv where nv: "dss (ns (snd (UpsertDB g (Some d) w))) = Some (AList.update g nv t)"
        "elems nv = (case map_of t g of None \<Rightarrow> []
                   | Some exist \<Rightarrow> filter (\<lambda>x. ID (heap w) x \<noteq> ID (heap w) d) (elems exist)) @ [d]"
        using UpsertDB_dss [OF t(1,2), of g d] by blast
      have "distinct (map (ID (heap w)) (elems nv))"
      proof (cases "map_of t g")
        case None
        then show ?thesis using nv(2) by simp
      next
        case (Some exist)
        then show ?thesis
          using nv(2) distinct_upsert [OF ids_distinct_lookup [OF t(3) Some], of d] by simp
      qed
      then show ?thesis
        using CUpsertDB Some nv(1) t UpsertDB_quiet [OF t(1), of g "Some d"]
        by (simp add: invariant_def UpsertDB_outcome keys_ok_update ids_distinct_update)
    qed
  next
    case (CRemoveNode g i)
    have id: "ids_distinct (heap (snd (RemoveNode g i w))) = ids_distinct (heap w)"
      using RemoveNode_heap_ID [OF t(1,2), of g i] by (simp add: ids_distinct_cong fun_eq_iff)
    have "keys_ok (case map_of t g of None \<Rightarrow> t
             | Some v \<Rightarrow> map (\<lambda>p. if fst p = g then (g, fst (rebuild (heap w) i v None (fresh w))) else p) t)"
      using t(2) by (simp add: keys_ok_rebuild split: option.splits)
    moreover have "ids_distinct (heap w) (case map_of t g of None \<Rightarrow> t
             | Some v \<Rightarrow> map (\<lambda>p. if fst p = g then (g, fst (rebuild (heap w) i v None (fresh w))) else p) t)"
      using t(3) ids_distinct_lookup [OF t(3)]
      by (auto simp: ids_distinct_rebuild rebuild_elems distinct_map_filter split: option.splits)
    ultimately show ?thesis
      using CRemoveNode RemoveNode_dss [OF t(1,2), of g i] id
      by (simp add: invariant_def RemoveNode_outcome)
  next
    case (CRemoveDB g i)
    have "keys_ok (case map_of t g of None \<Rightarrow> t
             | Some v \<Rightarrow> (case fst (snd (rebuild (heap w) i v None (fresh w))) of None \<Rightarrow> t
                  | Some e \<Rightarrow> AList.update g (fst (rebuild (heap w) i v None (fresh w))) t))"
      using t(2) by (simp add: keys_ok_update split: option.splits)
    moreover have "ids_distinct (heap w) (case map_of t g of None \<Rightarrow> t
             | Some v \<Rightarrow> (case fst (snd (rebuild (heap w) i v None (fresh w))) of None \<Rightarrow> t
                  | Some e \<Rightarrow> AList.update g (fst (rebuild (heap w) i v None (fresh w))) t))"
      using t(3) ids_distinct_lookup [OF t(3)]
      by (auto simp: ids_distinct_update rebuild_elems distinct_map_filter split: option.splits)
    ultimately show ?thesis
      using CRemoveDB RemoveDB_dss [OF t(1,2), of g i] RemoveDB_quiet [OF t(1,2), of g i] t(1)
      by (simp add: invariant_def RemoveDB_outcome)
  next
    case (CRemoveGroup g)
    have "heap (snd (RemoveGroup g w)) = heap w" using RemoveGroup_set [OF t(1,2), of g] by simp
    then show ?thesis
      using CRemoveGroup RemoveGroup_dss [OF t(1,2), of g] t
      by (simp add: invariant_def RemoveGroup_outcome keys_ok_filter ids_distinct_filter)
  qed (use assms(2) in simp_all)
qed

lemma apply_all_invariant:
  "invariant w \<Longrightarrow> list_all topology_command cs \<Longrightarrow>
   invariant (snd (apply_all key pd cs w))
   \<and> (list_all (\<lambda>c. \<not> nil_handle c) cs \<longrightarrow> fst (apply_all key pd cs w) = Returned None)"
proof (induction cs arbitrary: w)
  case Nil
  then show ?case by simp
next
  case (Cons c cs)
  obtain r w' where r: "run key pd c w = (r, w')" by (cases "run key pd c w")
  have s: "invariant w'" "\<not> nil_handle c \<longrightarrow> r = Returned None"
    using step_invariant [of w c key pd] Cons.prems r by simp_all
  show ?case
  proof (cases "r = Returned None")
    case True
    then show ?thesis using Cons.IH [OF s(1)] Cons.prems(2) r by simp
  next
    case False
    then have "apply_all key pd (c # cs) w = (r, w')"
      using r by (simp split: outcome.splits option.splits)
    then show ?thesis using s False by auto
  qed
qed

section \<open>Two runs on concrete worlds\<close>

text \<open>
  From an empty topology: upsert db_a, upsert db_b, remove node db_a; group g1 is
  left with db_b alone.
\<close>

lemma end_to_end_scenario:
  "map_option (\<lambda>t. map (\<lambda>p. (fst p, elems (snd p))) t)
     (dss (ns (snd (apply_all ''slow_threshold'' example_parse
        [CUpsertDB ''g1'' (Some 1), CUpsertDB ''g1'' (Some 2), CRemoveNode ''g1'' ''db_a'']
        (example_world (Some []))))))
   = Some [(''g1'', [2])]"
  by (simp add: example_world_def example_heap_def ID_def UpsertDB_def RemoveNode_def world_defs
      nil_slice_def append1_def rebuild_def make_slice_def)

text \<open>
  RemoveNode for an ID the group does not hold stores a group slice with the old
  handles in a new array: equal content, another sequence object.
\<close>

lemma rebuilt_group_is_another_slice:
  "map_option (\<lambda>t. map_of t ''g1'')
     (dss (ns (snd (RemoveNode ''g1'' ''db_c'' (example_world (Some example_topology))))))
   = Some (Some \<lparr>arr = Some 2, elems = [1, 2], cap = 2\<rparr>)
   \<and> map_of example_topology ''g1'' = Some \<lparr>arr = Some 0, elems = [1, 2], cap = 2\<rparr>"
  by (simp add: example_world_def example_topology_def example_heap_def ID_def RemoveNode_def
      world_defs append1_def rebuild_def make_slice_def)

section \<open>The claims\<close>

subsection \<open>C1: what a command reports\<close>



subsection \<open>C2: removing what is not there\<close>

text \<open>
  C2: on every topology, RemoveNode and RemoveDB for an ID that group \<open>g\<close> does not
  hold (the group may be missing too), and RemoveGroup for a group that is missing,
  report success and leave a topology with the same content: the same groups, each
  with the same sequence of handles.
\<close>

theorem C2_idempotent_delete:
  assumes "dss (ns w) = Some t" "keys_ok t"
  shows "(\<not> has_id (heap w) t g i \<longrightarrow>
            fst (RemoveNode g i w) = Returned None \<and>
            (\<exists>t'. dss (ns (snd (RemoveNode g i w))) = Some t' \<and> content t' = content t))
       \<and> (\<not> has_id (heap w) t g i \<longrightarrow>
            fst (RemoveDB g i w) = Returned None \<and>
            (\<exists>t'. dss (ns (snd (RemoveDB g i w))) = Some t' \<and> content t' = content t))
       \<and> (map_of t g = None \<longrightarrow>
            fst (RemoveGroup g w) = Returned None \<and>
            (\<exists>t'. dss (ns (snd (RemoveGroup g w))) = Some t' \<and> content t' = content t))"
proof -
  have node: "\<exists>t'. dss (ns (snd (RemoveNode g i w))) = Some t' \<and> content t' = content t"
    if absent: "\<not> has_id (heap w) t g i"
  proof (cases "map_of t g")
    case None
    then show ?thesis using RemoveNode_no_group [OF assms None, of i] by simp
  next
    case (Some v)
    obtain nv removed fr where rb: "rebuild (heap w) i v None (fresh w) = (nv, removed, fr)"
      by (cases "rebuild (heap w) i v None (fresh w)")
    have "i \<notin> ID (heap w) ` set (elems v)" using absent Some by (simp add: has_id_def)
    then have nv: "elems nv = elems v" and rm: "removed = None"
      using rebuild_absent [of i "heap w" v None "fresh w"] rb by simp_all
    show ?thesis
      using RemoveNode_group [OF assms Some rb refl] rm content_rebuild [OF Some nv] by simp
  qed
  have db: "\<exists>t'. dss (ns (snd (RemoveDB g i w))) = Some t' \<and> content t' = content t"
    if absent: "\<not> has_id (heap w) t g i"
  proof (cases "map_of t g")
    case None
    then show ?thesis using RemoveDB_no_group [OF assms(1) None, of i] assms(1) by simp
  next
    case (Some v)
    obtain nv expired fr where rb: "rebuild (heap w) i v None (fresh w) = (nv, expired, fr)"
      by (cases "rebuild (heap w) i v None (fresh w)")
    have "i \<notin> ID (heap w) ` set (elems v)" using absent Some by (simp add: has_id_def)
    then have "expired = None"
      using rebuild_absent [of i "heap w" v None "fresh w"] rb by simp
    then show ?thesis using RemoveDB_group [OF assms Some rb] assms(1) by simp
  qed
  have grp: "\<exists>t'. dss (ns (snd (RemoveGroup g w))) = Some t' \<and> content t' = content t"
    if "map_of t g = None"
    using RemoveGroup_set [OF assms, of g] that by (simp add: filter_absent_key)
  show ?thesis
    using node db grp assms(1) by (simp add: RemoveNode_outcome RemoveGroup_outcome RemoveDB_outcome)
qed

text \<open>
  The witness: db_c is in group g2 but not in g1, and there is no group g3.
\<close>

theorem C2_idempotent_delete_witness:
  "dss (ns (example_world (Some example_topology))) = Some example_topology
   \<and> keys_ok example_topology
   \<and> \<not> has_id example_heap example_topology ''g1'' ''db_c''
   \<and> fst (RemoveNode ''g1'' ''db_c'' (example_world (Some example_topology))) = Returned None
   \<and> (\<exists>t'. dss (ns (snd (RemoveNode ''g1'' ''db_c'' (example_world (Some example_topology)))))
              = Some t' \<and> content t' = content example_topology)
   \<and> fst (RemoveDB ''g1'' ''db_c'' (example_world (Some example_topology))) = Returned None
   \<and> (\<exists>t'. dss (ns (snd (RemoveDB ''g1'' ''db_c'' (example_world (Some example_topology)))))
              = Some t' \<and> content t' = content example_topology)
   \<and> map_of example_topology ''g3'' = None
   \<and> fst (RemoveGroup ''g3'' (example_world (Some example_topology))) = Returned None
   \<and> (\<exists>t'. dss (ns (snd (RemoveGroup ''g3'' (example_world (Some example_topology)))))
              = Some t' \<and> content t' = content example_topology)"
proof -
  let ?w = "example_world (Some example_topology)"
  have h: "dss (ns ?w) = Some example_topology"
    by (simp add: example_world_def)
  have k: "keys_ok example_topology"
    by (simp add: keys_ok_def example_topology_def)
  have hp: "heap ?w = example_heap"
    by (simp add: example_world_def)
  have a: "\<not> has_id example_heap example_topology ''g1'' ''db_c''"
    by (simp add: has_id_def example_topology_def example_heap_def ID_def)
  have n: "map_of example_topology ''g3'' = None"
    by (simp add: example_topology_def)
  have a': "\<not> has_id (heap ?w) example_topology ''g1'' ''db_c''"
    using a by (simp add: hp)
  note c1 = C2_idempotent_delete [OF h k, where g = "''g1''" and i = "''db_c''"]
  note c2 = C2_idempotent_delete [OF h k, where g = "''g3''" and i = "''db_c''"]
  note node = c1 [THEN conjunct1, rule_format, OF a']
  note db = c1 [THEN conjunct2, THEN conjunct1, rule_format, OF a']
  note grp = c2 [THEN conjunct2, THEN conjunct2, rule_format, OF n]
  show ?thesis
    by (intro conjI) (rule h k a n node [THEN conjunct1] node [THEN conjunct2]
      db [THEN conjunct1] db [THEN conjunct2] grp [THEN conjunct1] grp [THEN conjunct2])+
qed

subsection \<open>C3: UpsertDB over a handle with the same ID\<close>

text \<open>
  C3: when group \<open>g\<close> holds a handle with the ID of \<open>d\<close>, UpsertDB reports success and
  stores a topology whose group \<open>g\<close> holds exactly one handle with that ID, \<open>d\<close>
  itself: the new sequence is the old one without the handles of that ID, in their
  old order, followed by \<open>d\<close>.
\<close>

theorem C3_upsert_replaces:
  assumes "dss (ns w) = Some t" "map_of t g = Some s"
    and "ID (heap w) d \<in> set (map (ID (heap w)) (elems s))"
  shows "fst (UpsertDB g (Some d) w) = Returned None
       \<and> heap (snd (UpsertDB g (Some d) w)) = heap w
       \<and> (\<exists>t' s'. dss (ns (snd (UpsertDB g (Some d) w))) = Some t' \<and> map_of t' g = Some s'
            \<and> filter (\<lambda>x. ID (heap w) x = ID (heap w) d) (elems s') = [d]
            \<and> elems s' = filter (\<lambda>x. ID (heap w) x \<noteq> ID (heap w) d) (elems s) @ [d])"
proof -
  obtain vals expired fr0 where dl:
    "(case map_of t g of
        None \<Rightarrow> (nil_slice, None, fresh w)
      | Some exist \<Rightarrow> drop_loop (heap w) (ID (heap w) d) (elems exist) (nil_slice, None, fresh w))
     = (vals, expired, fr0)"
    by (metis prod_cases3)
  obtain nv fr where ap: "append1 vals d fr0 = (nv, fr)" by (cases "append1 vals d fr0")
  note wd = UpsertDB_world [OF assms(1) dl ap refl]
  have el: "elems nv = filter (\<lambda>x. ID (heap w) x \<noteq> ID (heap w) d) (elems s) @ [d]"
    using upsert_elems [OF dl ap] assms(2) by simp
  have one: "filter (\<lambda>x. ID (heap w) x = ID (heap w) d) (elems nv) = [d]"
    by (simp add: el)
  have "map_of (AList.update g nv (copy_range t [])) g = Some nv"
    by (simp add: update_conv')
  then show ?thesis using wd el one assms(1) by (simp add: UpsertDB_outcome)
qed

text \<open>
  The witness: handle 4 has the ID db_a of handle 1; group g1 goes from 1, 2 to 2, 4.
\<close>

theorem C3_upsert_replaces_witness:
  "dss (ns (example_world (Some example_topology))) = Some example_topology
   \<and> map_of example_topology ''g1'' = Some \<lparr>arr = Some 0, elems = [1, 2], cap = 2\<rparr>
   \<and> ID example_heap 4 \<in> set (map (ID example_heap) [1, 2])
   \<and> fst (UpsertDB ''g1'' (Some 4) (example_world (Some example_topology))) = Returned None
   \<and> (\<exists>t' s'. dss (ns (snd (UpsertDB ''g1'' (Some 4) (example_world (Some example_topology))))) = Some t'
          \<and> map_of t' ''g1'' = Some s' \<and> elems s' = [2, 4])"
proof -
  let ?w = "example_world (Some example_topology)"
  have h: "dss (ns ?w) = Some example_topology"
    by (simp add: example_world_def)
  have hp: "heap ?w = example_heap"
    by (simp add: example_world_def)
  have g: "map_of example_topology ''g1'' = Some \<lparr>arr = Some 0, elems = [1, 2], cap = 2\<rparr>"
    by (simp add: example_topology_def)
  have a: "ID example_heap 4 \<in> set (map (ID example_heap) [1, 2])"
    by (simp add: example_heap_def ID_def)
  have a': "ID (heap ?w) 4 \<in> set (map (ID (heap ?w)) (elems \<lparr>arr = Some 0, elems = [1, 2], cap = 2\<rparr>))"
    using a by (simp add: hp)
  have f: "filter (\<lambda>x. ID example_heap x \<noteq> ID example_heap 4) [1, 2] @ [4] = [2, 4]"
    by (simp add: example_heap_def ID_def)
  note c = C3_upsert_replaces [OF h g a']
  from c [THEN conjunct2, THEN conjunct2]
  obtain t' s' where ts:
    "dss (ns (snd (UpsertDB ''g1'' (Some 4) ?w))) = Some t' \<and> map_of t' ''g1'' = Some s'
     \<and> filter (\<lambda>x. ID (heap ?w) x = ID (heap ?w) 4) (elems s') = [4]
     \<and> elems s' = filter (\<lambda>x. ID (heap ?w) x \<noteq> ID (heap ?w) 4)
                     (elems \<lparr>arr = Some 0, elems = [1, 2], cap = 2\<rparr>) @ [4]"
    by (elim exE) (rule that)
  have e: "elems s' = [2, 4]"
    using ts f by (simp add: hp)
  have "dss (ns (snd (UpsertDB ''g1'' (Some 4) ?w))) = Some t' \<and> map_of t' ''g1'' = Some s'
          \<and> elems s' = [2, 4]"
    by (intro conjI) (rule ts [THEN conjunct1] ts [THEN conjunct2, THEN conjunct1] e)+
  then have ex: "\<exists>t' s'. dss (ns (snd (UpsertDB ''g1'' (Some 4) ?w))) = Some t'
          \<and> map_of t' ''g1'' = Some s' \<and> elems s' = [2, 4]"
    by (intro exI)
  show ?thesis
    by (intro conjI) (rule h g a c [THEN conjunct1] ex)+
qed

subsection \<open>C4: handle IDs stay distinct within a group\<close>

text \<open>
  C4: from every topology whose groups each hold pairwise distinct handle IDs, every
  finite sequence of UpsertDB, RemoveNode, RemoveDB and RemoveGroup commands leaves a
  topology whose groups each hold pairwise distinct handle IDs; and when no UpsertDB
  of the sequence is given the nil handle, every command of the sequence reports
  success, so that the whole sequence has been applied.
\<close>

theorem C4_ids_stay_distinct:
  assumes "dss (ns w) = Some t" "keys_ok t" "ids_distinct (heap w) t"
    and "list_all topology_command cs"
  shows "(\<exists>t'. dss (ns (snd (apply_all key pd cs w))) = Some t' \<and> keys_ok t'
              \<and> ids_distinct (heap (snd (apply_all key pd cs w))) t')
       \<and> (list_all (\<lambda>c. \<not> nil_handle c) cs \<longrightarrow> fst (apply_all key pd cs w) = Returned None)"
proof -
  have "invariant w" using assms(1,2,3) by (simp add: invariant_def)
  from apply_all_invariant [OF this assms(4), of key pd]
  show ?thesis by (auto simp: invariant_def split: option.splits)
qed

text \<open>
  The witness: on the example topology, upsert handle 4 over db_a, remove node db_b,
  remove db_c from g2, remove group g2.
\<close>

theorem C4_ids_stay_distinct_witness:
  "dss (ns (example_world (Some example_topology))) = Some example_topology
   \<and> keys_ok example_topology
   \<and> ids_distinct example_heap example_topology
   \<and> list_all topology_command
        [CUpsertDB ''g1'' (Some 4), CRemoveNode ''g1'' ''db_b'', CRemoveDB ''g2'' ''db_c'',
         CRemoveGroup ''g2'']
   \<and> (\<exists>t'. dss (ns (snd (apply_all ''slow_threshold'' example_parse
        [CUpsertDB ''g1'' (Some 4), CRemoveNode ''g1'' ''db_b'', CRemoveDB ''g2'' ''db_c'',
         CRemoveGroup ''g2'']
        (example_world (Some example_topology))))) = Some t'
      \<and> keys_ok t'
      \<and> ids_distinct (heap (snd (apply_all ''slow_threshold'' example_parse
        [CUpsertDB ''g1'' (Some 4), CRemoveNode ''g1'' ''db_b'', CRemoveDB ''g2'' ''db_c'',
         CRemoveGroup ''g2'']
        (example_world (Some example_topology))))) t')
   \<and> fst (apply_all ''slow_threshold'' example_parse
        [CUpsertDB ''g1'' (Some 4), CRemoveNode ''g1'' ''db_b'', CRemoveDB ''g2'' ''db_c'',
         CRemoveGroup ''g2'']
        (example_world (Some example_topology))) = Returned None"
proof -
  let ?w = "example_world (Some example_topology)"
  have h: "dss (ns ?w) = Some example_topology"
    by (simp add: example_world_def)
  have hp: "heap ?w = example_heap"
    by (simp add: example_world_def)
  have k: "keys_ok example_topology"
    by (simp add: keys_ok_def example_topology_def)
  have i: "ids_distinct example_heap example_topology"
    by (simp add: ids_distinct_def example_topology_def example_heap_def ID_def)
  have i': "ids_distinct (heap ?w) example_topology"
    using i by (simp add: hp)
  have l: "list_all topology_command
        [CUpsertDB ''g1'' (Some 4), CRemoveNode ''g1'' ''db_b'', CRemoveDB ''g2'' ''db_c'',
         CRemoveGroup ''g2'']"
    by simp
  have n: "list_all (\<lambda>c. \<not> nil_handle c)
        [CUpsertDB ''g1'' (Some 4), CRemoveNode ''g1'' ''db_b'', CRemoveDB ''g2'' ''db_c'',
         CRemoveGroup ''g2'']"
    by simp
  note c = C4_ids_stay_distinct [OF h k i' l, where key = "''slow_threshold''" and pd = example_parse]
  show ?thesis
    by (intro conjI) (rule h k i l c [THEN conjunct1] c [THEN conjunct2, rule_format, OF n])+
qed

subsection \<open>C5: which command closes a handle\<close>

text \<open>
  C5: on every topology, when \<open>x\<close> is the one handle of group \<open>g\<close> with the ID,
  RemoveNode makes exactly these calls: Lock, the store of the new snapshot, from
  which the ID is gone, then Close on \<open>x\<close>, once, then the log line and Unlock.
  RemoveDB calls Close on no handle, and neither does UpsertDB, whatever it
  displaces; both leave every handle object as it was.
\<close>

theorem C5_teardown_asymmetry:
  assumes "dss (ns w) = Some t" "keys_ok t"
  shows "(\<forall>s x. map_of t g = Some s \<and> filter (\<lambda>y. ID (heap w) y = i) (elems s) = [x] \<longrightarrow>
            (\<exists>t'. emitted (RemoveNode g i) w =
                     [Lock, StoreDss t', CallClose x,
                      Infof ''[%s] remove node '%s' from group '%s' successfully''
                        [S (name (ns w)), S i, S g],
                      Unlock]
                 \<and> dss (ns (snd (RemoveNode g i w))) = Some t'
                 \<and> \<not> has_id (heap w) t' g i
                 \<and> db_closed (heap (snd (RemoveNode g i w)) x) = Suc (db_closed (heap w x))))
       \<and> heap (snd (RemoveDB g i w)) = heap w
       \<and> (\<forall>x. CallClose x \<notin> set (emitted (RemoveDB g i) w))
       \<and> heap (snd (UpsertDB g ds w)) = heap w
       \<and> (\<forall>x. CallClose x \<notin> set (emitted (UpsertDB g ds) w))"
  using RemoveNode_closes [OF assms, of g _ i] RemoveDB_quiet [OF assms, of g i]
    UpsertDB_quiet [OF assms(1), of g ds]
  by blast

text \<open>The witness: handle 1 is the one handle of g1 with the ID db_a.\<close>

theorem C5_teardown_asymmetry_witness:
  "dss (ns (example_world (Some example_topology))) = Some example_topology
   \<and> keys_ok example_topology
   \<and> map_of example_topology ''g1'' = Some \<lparr>arr = Some 0, elems = [1, 2], cap = 2\<rparr>
   \<and> filter (\<lambda>y. ID example_heap y = ''db_a'') [1, 2] = [1]
   \<and> (\<exists>t'. emitted (RemoveNode ''g1'' ''db_a'') (example_world (Some example_topology)) =
              [Lock, StoreDss t', CallClose 1,
               Infof ''[%s] remove node '%s' from group '%s' successfully''
                 [S ''employees'', S ''db_a'', S ''g1''],
               Unlock]
          \<and> dss (ns (snd (RemoveNode ''g1'' ''db_a'' (example_world (Some example_topology)))))
              = Some t')
   \<and> heap (snd (RemoveDB ''g1'' ''db_a'' (example_world (Some example_topology)))) = example_heap
   \<and> heap (snd (UpsertDB ''g1'' (Some 4) (example_world (Some example_topology)))) = example_heap"
proof -
  let ?w = "example_world (Some example_topology)"
  have h: "dss (ns ?w) = Some example_topology"
    by (simp add: example_world_def)
  have hp: "heap ?w = example_heap"
    by (simp add: example_world_def)
  have nm: "name (ns ?w) = ''employees''"
    by (simp add: example_world_def)
  have k: "keys_ok example_topology"
    by (simp add: keys_ok_def example_topology_def)
  have g: "map_of example_topology ''g1'' = Some \<lparr>arr = Some 0, elems = [1, 2], cap = 2\<rparr>"
    by (simp add: example_topology_def)
  have f: "filter (\<lambda>y. ID example_heap y = ''db_a'') [1, 2] = [1]"
    by (simp add: example_heap_def ID_def)
  have p: "map_of example_topology ''g1'' = Some \<lparr>arr = Some 0, elems = [1, 2], cap = 2\<rparr>
      \<and> filter (\<lambda>y. ID (heap ?w) y = ''db_a'') (elems \<lparr>arr = Some 0, elems = [1, 2], cap = 2\<rparr>) = [1]"
    using g f by (simp add: hp)
  note c = C5_teardown_asymmetry [OF h k, where g = "''g1''" and i = "''db_a''" and ds = "Some 4"]
  from c [THEN conjunct1, rule_format, OF p]
  obtain t' where ts:
    "emitted (RemoveNode ''g1'' ''db_a'') ?w =
       [Lock, StoreDss t', CallClose 1,
        Infof ''[%s] remove node '%s' from group '%s' successfully''
          [S (name (ns ?w)), S ''db_a'', S ''g1''],
        Unlock]
     \<and> dss (ns (snd (RemoveNode ''g1'' ''db_a'' ?w))) = Some t'
     \<and> \<not> has_id (heap ?w) t' ''g1'' ''db_a''
     \<and> db_closed (heap (snd (RemoveNode ''g1'' ''db_a'' ?w)) 1) = Suc (db_closed (heap ?w 1))"
    by (elim exE) (rule that)
  have "emitted (RemoveNode ''g1'' ''db_a'') ?w =
              [Lock, StoreDss t', CallClose 1,
               Infof ''[%s] remove node '%s' from group '%s' successfully''
                 [S ''employees'', S ''db_a'', S ''g1''],
               Unlock]
          \<and> dss (ns (snd (RemoveNode ''g1'' ''db_a'' ?w))) = Some t'"
    using ts [THEN conjunct1] ts [THEN conjunct2, THEN conjunct1] by (simp only: nm)
  then have ex: "\<exists>t'. emitted (RemoveNode ''g1'' ''db_a'') ?w =
              [Lock, StoreDss t', CallClose 1,
               Infof ''[%s] remove node '%s' from group '%s' successfully''
                 [S ''employees'', S ''db_a'', S ''g1''],
               Unlock]
          \<and> dss (ns (snd (RemoveNode ''g1'' ''db_a'' ?w))) = Some t'"
    by (intro exI)
  have db: "heap (snd (RemoveDB ''g1'' ''db_a'' ?w)) = example_heap"
    using c [THEN conjunct2, THEN conjunct1] by (simp only: hp)
  have up: "heap (snd (UpsertDB ''g1'' (Some 4) ?w)) = example_heap"
    using c [THEN conjunct2, THEN conjunct2, THEN conjunct2, THEN conjunct1] by (simp only: hp)
  show ?thesis
    by (intro conjI) (rule h k g f ex db up)+
qed

subsection \<open>C6: UpdateWeight leaves the topology alone\<close>

text \<open>
  C6: on every topology, UpdateWeight reports success and leaves the Namespace, and so
  the topology snapshot, as it was; it never stores a snapshot. When no handle of
  the ID is in the group it logs the error and touches no handle. When the handle
  the search finds rejects the weight, the BackendError is logged and absorbed.
\<close>

theorem C6_update_weight_absorbs_failures:
  assumes "dss (ns w) = Some t"
  shows "fst (UpdateWeight g i wt w) = Returned None
       \<and> ns (snd (UpdateWeight g i wt w)) = ns w
       \<and> (\<forall>t'. StoreDss t' \<notin> set (emitted (UpdateWeight g i wt) w))
       \<and> (\<not> has_id (heap w) t g i \<longrightarrow>
            heap (snd (UpdateWeight g i wt w)) = heap w \<and>
            emitted (UpdateWeight g i wt) w =
              [Lock,
               Errorf ''[%s] failed to update weight: no such datasource %s.%s''
                 [S (name (ns w)), S g, S i],
               Unlock])
       \<and> (\<forall>s b. map_of t g = Some s \<and> find_bingo (heap w) i (elems s) = Some b
                   \<and> db_rejects (heap w b) wt \<longrightarrow>
            heap (snd (UpdateWeight g i wt w)) = heap w \<and>
            emitted (UpdateWeight g i wt) w =
              [Lock, CallSetWeight b wt,
               Errorf ''[%s] failed to update weight of datasource %s.%s: %v''
                 [S (name (ns w)), S g, S i, E BackendError],
               Unlock])"
proof -
  have ret: "fst (UpdateWeight g i wt w) = Returned None"
    using assms by (simp add: UpdateWeight_outcome)
  have same: "ns (snd (UpdateWeight g i wt w)) = ns w
       \<and> (\<forall>t'. StoreDss t' \<notin> set (emitted (UpdateWeight g i wt) w))"
  proof -
    consider (absent) "\<not> has_id (heap w) t g i"
      | (rejected) s b where "map_of t g = Some s" "find_bingo (heap w) i (elems s) = Some b"
          "db_rejects (heap w b) wt"
      | (accepted) s b where "map_of t g = Some s" "find_bingo (heap w) i (elems s) = Some b"
          "\<not> db_rejects (heap w b) wt"
      using UpdateWeight_cases [of "heap w" t g i] by blast
    then show ?thesis
    proof cases
      case absent
      then show ?thesis
        using UpdateWeight_absent [OF assms absent, where wt = wt] by (simp add: emitted_def)
    next
      case (rejected s b)
      then show ?thesis using UpdateWeight_rejected [OF assms rejected] by (simp add: emitted_def)
    next
      case (accepted s b)
      then show ?thesis using UpdateWeight_accepted [OF assms accepted] by (simp add: emitted_def)
    qed
  qed
  have abs: "\<not> has_id (heap w) t g i \<longrightarrow>
            heap (snd (UpdateWeight g i wt w)) = heap w \<and>
            emitted (UpdateWeight g i wt) w =
              [Lock,
               Errorf ''[%s] failed to update weight: no such datasource %s.%s''
                 [S (name (ns w)), S g, S i],
               Unlock]"
    using UpdateWeight_absent [OF assms, where g = g and i = i and wt = wt] by (simp add: emitted_def)
  have rej: "\<forall>s b. map_of t g = Some s \<and> find_bingo (heap w) i (elems s) = Some b
                   \<and> db_rejects (heap w b) wt \<longrightarrow>
            heap (snd (UpdateWeight g i wt w)) = heap w \<and>
            emitted (UpdateWeight g i wt) w =
              [Lock, CallSetWeight b wt,
               Errorf ''[%s] failed to update weight of datasource %s.%s: %v''
                 [S (name (ns w)), S g, S i, E BackendError],
               Unlock]"
    using UpdateWeight_rejected [OF assms, where g = g and i = i and wt = wt] by (simp add: emitted_def)
  show ?thesis using ret same abs rej by blast
qed

text \<open>
  The witness: the ID missing-id is not in group g1, and db_b rejects a negative
  weight.
\<close>

theorem C6_update_weight_absorbs_failures_witness:
  "dss (ns (example_world (Some example_topology))) = Some example_topology
   \<and> \<not> has_id example_heap example_topology ''g1'' ''missing-id''
   \<and> fst (UpdateWeight ''g1'' ''missing-id'' (5, 5) (example_world (Some example_topology)))
       = Returned None
   \<and> ns (snd (UpdateWeight ''g1'' ''missing-id'' (5, 5) (example_world (Some example_topology))))
       = ns (example_world (Some example_topology))
   \<and> find_bingo example_heap ''db_b'' [1, 2] = Some 2
   \<and> db_rejects (example_heap 2) (-1, 0)
   \<and> emitted (UpdateWeight ''g1'' ''db_b'' (-1, 0)) (example_world (Some example_topology)) =
        [Lock, CallSetWeight 2 (-1, 0),
         Errorf ''[%s] failed to update weight of datasource %s.%s: %v''
           [S ''employees'', S ''g1'', S ''db_b'', E BackendError],
         Unlock]"
proof -
  let ?w = "example_world (Some example_topology)"
  have h: "dss (ns ?w) = Some example_topology"
    by (simp add: example_world_def)
  have hp: "heap ?w = example_heap" "name (ns ?w) = ''employees''"
    by (simp_all add: example_world_def)
  have a: "\<not> has_id example_heap example_topology ''g1'' ''missing-id''"
    by (simp add: has_id_def example_topology_def example_heap_def ID_def)
  have g1: "map_of example_topology ''g1'' = Some \<lparr>arr = Some 0, elems = [1, 2], cap = 2\<rparr>"
    by (simp add: example_topology_def)
  have f: "find_bingo example_heap ''db_b'' [1, 2] = Some 2"
    by (simp add: example_heap_def ID_def)
  have r: "db_rejects (example_heap 2) (-1, 0)"
    by (simp add: example_heap_def)
  note c1 = C6_update_weight_absorbs_failures [OF h, where g = "''g1''" and i = "''missing-id''" and wt = "(5, 5)"]
  note c2 = C6_update_weight_absorbs_failures [OF h, where g = "''g1''" and i = "''db_b''" and wt = "(-1, 0)"]
  have e: "emitted (UpdateWeight ''g1'' ''db_b'' (-1, 0)) ?w =
        [Lock, CallSetWeight 2 (-1, 0),
         Errorf ''[%s] failed to update weight of datasource %s.%s: %v''
           [S ''employees'', S ''g1'', S ''db_b'', E BackendError],
         Unlock]"
    using c2 g1 f r by (simp add: hp)
  show ?thesis using h a c1 f r e by simp
qed

subsection \<open>C7: UpdateSlowThreshold\<close>

text \<open>
  C7: in every Namespace state UpdateSlowThreshold reports success. When the key is
  in the parameters and its value parses, only \<open>slowThreshold\<close> changes, to the parsed
  duration; when the key is missing or the value does not parse, nothing changes.
\<close>

theorem C7_slow_threshold:
  "fst (UpdateSlowThreshold key pd w) = Returned None
   \<and> (\<forall>s d. parameters (ns w) key = Some s \<and> pd s = Some d \<longrightarrow>
          snd (UpdateSlowThreshold key pd w) = w\<lparr>ns := (ns w)\<lparr>slowThreshold := d\<rparr>\<rparr>)
   \<and> (parameters (ns w) key = None \<longrightarrow> snd (UpdateSlowThreshold key pd w) = w)
   \<and> (\<forall>s. parameters (ns w) key = Some s \<and> pd s = None \<longrightarrow>
          snd (UpdateSlowThreshold key pd w) = w)"
  by (simp add: UpdateSlowThreshold_def split: option.splits)

text \<open>
  The witness, on the example parameters: the key slow_threshold holds 1s, which
  parses; the key slow.threshold is missing; the key stale_threshold holds a value
  that does not parse.
\<close>

theorem C7_slow_threshold_witness:
  "parameters (ns (example_world None)) ''slow_threshold'' = Some ''1s''
   \<and> example_parse ''1s'' = Some 1000000000
   \<and> slowThreshold (ns (snd (UpdateSlowThreshold ''slow_threshold'' example_parse
        (example_world None)))) = 1000000000
   \<and> parameters (ns (example_world None)) ''slow.threshold'' = None
   \<and> snd (UpdateSlowThreshold ''slow.threshold'' example_parse (example_world None))
       = example_world None
   \<and> parameters (ns (example_world None)) ''stale_threshold'' = Some ''garbage''
   \<and> example_parse ''garbage'' = None
   \<and> snd (UpdateSlowThreshold ''stale_threshold'' example_parse (example_world None))
       = example_world None"
proof -
  let ?w = "example_world None"
  have p: "parameters (ns ?w) ''slow_threshold'' = Some ''1s''"
    by (simp add: example_world_def)
  have q: "example_parse ''1s'' = Some 1000000000"
    by (simp add: example_parse_def)
  have n: "parameters (ns ?w) ''slow.threshold'' = None"
    by (simp add: example_world_def)
  have g: "parameters (ns ?w) ''stale_threshold'' = Some ''garbage''"
    by (simp add: example_world_def)
  have gq: "example_parse ''garbage'' = None"
    by (simp add: example_parse_def)
  note c1 = C7_slow_threshold [of "''slow_threshold''" example_parse ?w]
  note c2 = C7_slow_threshold [of "''slow.threshold''" example_parse ?w]
  note c3 = C7_slow_threshold [of "''stale_threshold''" example_parse ?w]
  have s: "snd (UpdateSlowThreshold ''slow_threshold'' example_parse ?w)
             = ?w\<lparr>ns := (ns ?w)\<lparr>slowThreshold := 1000000000\<rparr>\<rparr>"
    using c1 [THEN conjunct2, THEN conjunct1, rule_format, OF conjI [OF p q]] .
  have t: "slowThreshold (ns (snd (UpdateSlowThreshold ''slow_threshold'' example_parse ?w)))
             = 1000000000"
    by (simp add: s)
  have u: "snd (UpdateSlowThreshold ''slow.threshold'' example_parse ?w) = ?w"
    using c2 [THEN conjunct2, THEN conjunct2, THEN conjunct1, rule_format, OF n] .
  have v: "snd (UpdateSlowThreshold ''stale_threshold'' example_parse ?w) = ?w"
    using c3 [THEN conjunct2, THEN conjunct2, THEN conjunct2, rule_format, OF conjI [OF g gq]] .
  show ?thesis
    by (intro conjI) (rule p q t n u g gq v)+
qed

subsection \<open>C8: the groups a command does not target are shared\<close>

text \<open>
  C8: on every topology, after UpsertDB, RemoveNode, RemoveDB or RemoveGroup on group
  \<open>A\<close>, every other group \<open>B\<close> maps in the current snapshot to the very slice it mapped
  to before: the same backing array, length and capacity, not a copy with equal
  elements. Only the entry of \<open>A\<close> can differ.
\<close>

theorem C8_structural_sharing:
  assumes "dss (ns w) = Some t" "keys_ok t" "B \<noteq> A"
  shows "(\<exists>t'. dss (ns (snd (UpsertDB A ds w))) = Some t' \<and> map_of t' B = map_of t B)
       \<and> (\<exists>t'. dss (ns (snd (RemoveNode A i w))) = Some t' \<and> map_of t' B = map_of t B)
       \<and> (\<exists>t'. dss (ns (snd (RemoveDB A i w))) = Some t' \<and> map_of t' B = map_of t B)
       \<and> (\<exists>t'. dss (ns (snd (RemoveGroup A w))) = Some t' \<and> map_of t' B = map_of t B)"
proof -
  have up: "\<exists>t'. dss (ns (snd (UpsertDB A ds w))) = Some t' \<and> map_of t' B = map_of t B"
  proof (cases ds)
    case None
    then show ?thesis using assms(1) by (simp add: UpsertDB_nil)
  next
    case (Some d)
    then show ?thesis
      using UpsertDB_dss [OF assms(1,2), of A d] assms(3) by (auto simp: update_conv')
  qed
  have rn: "\<exists>t'. dss (ns (snd (RemoveNode A i w))) = Some t' \<and> map_of t' B = map_of t B"
    using RemoveNode_dss [OF assms(1,2), of A i] assms(3)
    by (simp add: map_of_rebuild_other split: option.splits)
  have rd: "\<exists>t'. dss (ns (snd (RemoveDB A i w))) = Some t' \<and> map_of t' B = map_of t B"
    using RemoveDB_dss [OF assms(1,2), of A i] assms(3)
    by (simp add: update_conv' split: option.splits)
  have rg: "\<exists>t'. dss (ns (snd (RemoveGroup A w))) = Some t' \<and> map_of t' B = map_of t B"
    using RemoveGroup_dss [OF assms(1,2), of A] assms(3)
    by (simp add: map_of_filter_other)
  show ?thesis using up rn rd rg by blast
qed

text \<open>The witness: the commands target g1, and g2 keeps its slice.\<close>

theorem C8_structural_sharing_witness:
  "dss (ns (example_world (Some example_topology))) = Some example_topology
   \<and> keys_ok example_topology
   \<and> ''g2'' \<noteq> ''g1''
   \<and> (\<exists>t'. dss (ns (snd (UpsertDB ''g1'' (Some 4) (example_world (Some example_topology))))) = Some t'
          \<and> map_of t' ''g2'' = map_of example_topology ''g2'')
   \<and> (\<exists>t'. dss (ns (snd (RemoveNode ''g1'' ''db_a'' (example_world (Some example_topology))))) = Some t'
          \<and> map_of t' ''g2'' = map_of example_topology ''g2'')
   \<and> (\<exists>t'. dss (ns (snd (RemoveDB ''g1'' ''db_a'' (example_world (Some example_topology))))) = Some t'
          \<and> map_of t' ''g2'' = map_of example_topology ''g2'')
   \<and> (\<exists>t'. dss (ns (snd (RemoveGroup ''g1'' (example_world (Some example_topology))))) = Some t'
          \<and> map_of t' ''g2'' = map_of example_topology ''g2'')"
proof -
  let ?w = "example_world (Some example_topology)"
  have h: "dss (ns ?w) = Some example_topology"
    by (simp add: example_world_def)
  have k: "keys_ok example_topology"
    by (simp add: keys_ok_def example_topology_def)
  have ne: "''g2'' \<noteq> ''g1''" by simp
  note c = C8_structural_sharing [OF h k ne, where ds = "Some 4" and i = "''db_a''"]
  show ?thesis
    by (intro conjI)
      (rule h k ne c [THEN conjunct1] c [THEN conjunct2, THEN conjunct1]
        c [THEN conjunct2, THEN conjunct2, THEN conjunct1]
        c [THEN conjunct2, THEN conjunct2, THEN conjunct2])+
qed

subsection \<open>C10: UpsertDB into a group that does not exist\<close>

text \<open>
  C10: when group \<open>g\<close> is not in the map, UpsertDB reports success and stores a
  topology in which \<open>g\<close> holds the one-element sequence of \<open>d\<close>, and every other group
  maps to the slice it mapped to before.
\<close>

theorem C10_upsert_new_group:
  assumes "dss (ns w) = Some t" "keys_ok t" "map_of t g = None"
  shows "fst (UpsertDB g (Some d) w) = Returned None
       \<and> (\<exists>t' s'. StoreDss t' \<in> set (emitted (UpsertDB g (Some d)) w)
            \<and> dss (ns (snd (UpsertDB g (Some d) w))) = Some t'
            \<and> map_of t' g = Some s' \<and> elems s' = [d]
            \<and> (\<forall>k. k \<noteq> g \<longrightarrow> map_of t' k = map_of t k))"
proof -
  obtain nv fr where ap: "append1 nil_slice d (fresh w) = (nv, fr)"
    by (cases "append1 nil_slice d (fresh w)")
  have dl: "(case map_of t g of
        None \<Rightarrow> (nil_slice, None, fresh w)
      | Some exist \<Rightarrow> drop_loop (heap w) (ID (heap w) d) (elems exist) (nil_slice, None, fresh w))
     = (nil_slice, None, fresh w)"
    using assms(3) by simp
  note wd = UpsertDB_world [OF assms(1) dl ap refl]
  have el: "elems nv = [d]" using upsert_elems [OF dl ap] assms(3) by simp
  have t': "copy_range t [] = t" using assms(2) by (rule copy_range_same)
  have m: "map_of (AList.update g nv t) g = Some nv"
    "\<forall>k. k \<noteq> g \<longrightarrow> map_of (AList.update g nv t) k = map_of t k"
    by (simp_all add: update_conv')
  show ?thesis using wd el m assms(1) by (simp add: UpsertDB_outcome t' emitted_def)
qed

text \<open>The witness: handle 3 goes into the new group g3.\<close>

theorem C10_upsert_new_group_witness:
  "dss (ns (example_world (Some example_topology))) = Some example_topology
   \<and> keys_ok example_topology
   \<and> map_of example_topology ''g3'' = None
   \<and> fst (UpsertDB ''g3'' (Some 3) (example_world (Some example_topology))) = Returned None
   \<and> (\<exists>t' s'. StoreDss t' \<in> set (emitted (UpsertDB ''g3'' (Some 3)) (example_world (Some example_topology)))
          \<and> dss (ns (snd (UpsertDB ''g3'' (Some 3) (example_world (Some example_topology))))) = Some t'
          \<and> map_of t' ''g3'' = Some s' \<and> elems s' = [3]
          \<and> map_of t' ''g1'' = map_of example_topology ''g1'')"
proof -
  let ?w = "example_world (Some example_topology)"
  have h: "dss (ns ?w) = Some example_topology"
    by (simp add: example_world_def)
  have k: "keys_ok example_topology"
    by (simp add: keys_ok_def example_topology_def)
  have n: "map_of example_topology ''g3'' = None"
    by (simp add: example_topology_def)
  have ne: "''g1'' \<noteq> ''g3''" by simp
  note c = C10_upsert_new_group [OF h k n, where d = 3]
  from c [THEN conjunct2]
  obtain t' s' where ts:
    "StoreDss t' \<in> set (emitted (UpsertDB ''g3'' (Some 3)) ?w)
     \<and> dss (ns (snd (UpsertDB ''g3'' (Some 3) ?w))) = Some t'
     \<and> map_of t' ''g3'' = Some s' \<and> elems s' = [3]
     \<and> (\<forall>k. k \<noteq> ''g3'' \<longrightarrow> map_of t' k = map_of example_topology k)"
    by (elim exE) (rule that)
  have o: "map_of t' ''g1'' = map_of example_topology ''g1''"
    using ts [THEN conjunct2, THEN conjunct2, THEN conjunct2, THEN conjunct2, rule_format, OF ne] .
  have "StoreDss t' \<in> set (emitted (UpsertDB ''g3'' (Some 3)) ?w)
          \<and> dss (ns (snd (UpsertDB ''g3'' (Some 3) ?w))) = Some t'
          \<and> map_of t' ''g3'' = Some s' \<and> elems s' = [3]
          \<and> map_of t' ''g1'' = map_of example_topology ''g1''"
    by (intro conjI)
      (rule ts [THEN conjunct1] ts [THEN conjunct2, THEN conjunct1]
        ts [THEN conjunct2, THEN conjunct2, THEN conjunct1]
        ts [THEN conjunct2, THEN conjunct2, THEN conjunct2, THEN conjunct1] o)+
  then have ex: "\<exists>t' s'. StoreDss t' \<in> set (emitted (UpsertDB ''g3'' (Some 3)) ?w)
          \<and> dss (ns (snd (UpsertDB ''g3'' (Some 3) ?w))) = Some t'
          \<and> map_of t' ''g3'' = Some s' \<and> elems s' = [3]
          \<and> map_of t' ''g1'' = map_of example_topology ''g1''"
    by (intro exI)
  show ?thesis
    by (intro conjI) (rule h k n c [THEN conjunct1] ex)+
qed

end
